theory Spec2Isabelle
  imports Complex_Main "HOL-Library.Word"
begin

section \<open>Strings of the front end\<close>

text \<open>
  A JavaScript string is a sequence of UTF-16 code units. A literal of the source is
  written \<open>js ''...''\<close>.
\<close>

type_synonym code_unit = "16 word"
type_synonym js_string = "code_unit list"

definition js :: "string \<Rightarrow> js_string" where
  "js s = map of_char s"

text \<open>
  \<open>String.prototype.trim\<close> removes white space and line terminators from both ends:
  TAB, LF, VT, FF, CR, SP, NBSP, the other space separators of Unicode (U+1680,
  U+2000 to U+200A, U+202F, U+205F, U+3000), LS, PS and U+FEFF.
\<close>

definition is_white_space :: "code_unit \<Rightarrow> bool" where
  "is_white_space c \<longleftrightarrow>
     (0x0009 \<le> c \<and> c \<le> 0x000D) \<or> c = 0x0020 \<or> c = 0x00A0 \<or> c = 0x1680 \<or>
     (0x2000 \<le> c \<and> c \<le> 0x200A) \<or> c = 0x2028 \<or> c = 0x2029 \<or> c = 0x202F \<or>
     c = 0x205F \<or> c = 0x3000 \<or> c = 0xFEFF"

definition trim :: "js_string \<Rightarrow> js_string" where
  "trim s = rev (dropWhile is_white_space (rev (dropWhile is_white_space s)))"

text \<open>A string is truthy when it is not empty.\<close>

definition truthy :: "js_string \<Rightarrow> bool" where
  "truthy s \<longleftrightarrow> s \<noteq> []"

section \<open>InputBox\<close>

text \<open>
  The component holds the text of the input field; \<open>disabled\<close> is a prop. A handler
  returns the argument of the call of \<open>onSendMessage\<close>, if it makes one, and the new
  text of the field.
\<close>

definition handleSend :: "bool \<Rightarrow> js_string \<Rightarrow> js_string option \<times> js_string" where
  "handleSend disabled input =
     (if truthy (trim input) \<and> \<not> disabled then (Some input, js '''')
      else (None, input))"

text \<open>
  \<open>handleKeyDown\<close>: the Enter key without Shift sends; every other key leaves the
  field to the browser.
\<close>

definition handleKeyDown ::
  "bool \<Rightarrow> js_string \<Rightarrow> js_string \<Rightarrow> bool \<Rightarrow> js_string option \<times> js_string" where
  "handleKeyDown disabled input key shiftKey =
     (if key = js ''Enter'' \<and> \<not> shiftKey then handleSend disabled input
      else (None, input))"

section \<open>ChatArea\<close>

text \<open>
  \<open>Message\<close> of the source; its fields \<open>id\<close>, \<open>role\<close> and \<open>content\<close> carry the prefix \<open>message_\<close> here.
\<close>

datatype role = User | Assistant

record message =
  message_id :: js_string
  message_role :: role
  message_content :: js_string

record chat_state =
  messages :: "message list"
  isLoading :: bool
  refreshHistory :: nat

text \<open>
  The request of \<open>fetch\<close>. The body of the chat request is the object given to
  \<open>JSON.stringify\<close>; the body of the upload request is the form data, a list of named
  files; a request made without options has no body. \<open>js_file\<close> is \<open>File\<close>, with
  its \<open>name\<close> and its \<open>type\<close>.
\<close>

record js_file =
  file_name :: js_string
  file_type :: js_string

record chat_body =
  message :: js_string
  top_k :: int

datatype request_body = NoBody | Json chat_body | FormData "(js_string \<times> js_file) list"

record http_request =
  url :: js_string
  http_method :: js_string
  headers :: "(js_string \<times> js_string) list"
  body :: request_body

text \<open>
  What \<open>fetch\<close> and \<open>response.json()\<close> give: the promise of \<open>fetch\<close> is rejected
  (no connection), or there is a response with its \<open>ok\<close> flag and its body. The body
  is \<open>Unparseable\<close> when it is not JSON, so that \<open>response.json()\<close> is rejected;
  \<open>JsonNull\<close> when it is \<open>null\<close>, so that \<open>response.json()\<close> succeeds and reading a
  property of the result raises a \<open>TypeError\<close>; and otherwise the value the code
  reads its fields from. The field \<open>response\<close> of the body of a chat response is taken
  to be a string, as the type \<open>Message\<close> of the source requires of the content it
  becomes.
\<close>

datatype 'a json_body = Unparseable | JsonNull | JsonValue 'a

datatype 'a fetch_result = Rejected | Response bool "'a json_body"

record chat_reply =
  response :: js_string

text \<open>
  What is thrown inside the \<open>try\<close> block of \<open>handleSendMessage\<close>: the \<open>Error\<close> the
  code raises itself with its message, the rejection of \<open>fetch\<close>, the rejection of
  \<open>response.json()\<close>, or the \<open>TypeError\<close> of reading \<open>data.response\<close> of a \<open>null\<close>
  body.
\<close>

datatype chat_error = Error js_string | FetchRejected | BodyUnreadable | TypeError

text \<open>\<open>Number.prototype.toString\<close> on a natural number: its decimal digits.\<close>

function toString :: "nat \<Rightarrow> js_string" where
  "toString n =
     (if n < 10 then [of_nat (48 + n)]
      else toString (n div 10) @ [of_nat (48 + n mod 10)])"
  by pat_completeness auto
termination
  by (relation "measure (\<lambda>n. n)") auto

definition chat_request :: "js_string \<Rightarrow> http_request" where
  "chat_request content =
     \<lparr>url = js ''http://localhost:5001/api/chat'',
      http_method = js ''POST'',
      headers = [(js ''Content-Type'', js ''application/json'')],
      body = Json \<lparr>message = content, top_k = 3\<rparr>\<rparr>"

text \<open>
  The \<open>try\<close> block: the request is sent, a response that is not ok raises the
  \<open>Error\<close> of the source before the body is read, and the answer is the field
  \<open>response\<close> of the body.
\<close>

definition request_answer ::
  "(http_request \<Rightarrow> chat_reply fetch_result) \<Rightarrow> js_string \<Rightarrow> chat_error + js_string" where
  "request_answer server content =
     (case server (chat_request content) of
        Rejected \<Rightarrow> Inl FetchRejected
      | Response ok data \<Rightarrow>
          if \<not> ok then Inl (Error (js ''Failed to get response from server''))
          else (case data of
                  Unparseable \<Rightarrow> Inl BodyUnreadable
                | JsonNull \<Rightarrow> Inl TypeError
                | JsonValue d \<Rightarrow> Inr (response d)))"

definition error_content :: js_string where
  "error_content =
     js ''Sorry, I encountered an error. Please make sure the backend server is running on http://localhost:5001''"

text \<open>
  The calls of \<open>Date.now()\<close> are counted from 0. The first one gives the id of the
  user message. The \<open>try\<close> block makes the next one when it builds the assistant
  message, whose \<open>id\<close> is evaluated before its \<open>content\<close>: so a \<open>TypeError\<close> of
  \<open>data.response\<close> is raised after the second call, and every other error before it.
  \<open>catch_reading err\<close> is the number of the call the \<open>catch\<close> block makes.
\<close>

definition catch_reading :: "chat_error \<Rightarrow> nat" where
  "catch_reading err = (case err of TypeError \<Rightarrow> 2 | _ \<Rightarrow> 1)"

text \<open>
  \<open>handleSendMessage\<close>. \<open>server\<close> is the other end of \<open>fetch\<close>; \<open>now k\<close> is what
  \<open>Date.now()\<close> returns at its call number \<open>k\<close>. The result is the state after the
  \<open>finally\<close> block and the requests that were sent. The call of \<open>console.error\<close> in
  the \<open>catch\<close> block changes nothing here.
\<close>

definition handleSendMessage ::
  "(http_request \<Rightarrow> chat_reply fetch_result) \<Rightarrow> (nat \<Rightarrow> nat) \<Rightarrow> js_string \<Rightarrow> chat_state
     \<Rightarrow> chat_state \<times> http_request list" where
  "handleSendMessage server now content st =
     (let userMessage = \<lparr>message_id = toString (now 0), message_role = User,
                          message_content = content\<rparr>;
          st1 = st\<lparr>messages := messages st @ [userMessage]\<rparr>;
          st2 = st1\<lparr>isLoading := True\<rparr>;
          st3 =
            (case request_answer server content of
               Inr answer \<Rightarrow>
                 st2\<lparr>messages := messages st2 @
                   [\<lparr>message_id = toString (now 1 + 1), message_role = Assistant,
                     message_content = answer\<rparr>]\<rparr>
             | Inl err \<Rightarrow>
                 st2\<lparr>messages := messages st2 @
                   [\<lparr>message_id = toString (now (catch_reading err) + 1),
                     message_role = Assistant, message_content = error_content\<rparr>]\<rparr>)
      in (st3\<lparr>isLoading := False\<rparr>, [chat_request content]))"

text \<open>The value of \<open>top_k\<close> a request carries, when its body is that of a chat request.\<close>

definition request_top_k :: "http_request \<Rightarrow> int option" where
  "request_top_k r = (case body r of Json b \<Rightarrow> Some (top_k b) | _ \<Rightarrow> None)"

text \<open>
  A chat request fails when \<open>fetch\<close> is rejected, when the response is not ok, or when
  the body of an ok response is not JSON or is \<open>null\<close>.
\<close>

definition failed_request :: "'a fetch_result \<Rightarrow> bool" where
  "failed_request r \<longleftrightarrow>
     (case r of
        Rejected \<Rightarrow> True
      | Response ok data \<Rightarrow> \<not> ok \<or> data = Unparseable \<or> data = JsonNull)"

definition handleUploadSuccess :: "chat_state \<Rightarrow> chat_state" where
  "handleUploadSuccess st = st\<lparr>refreshHistory := refreshHistory st + 1\<rparr>"

section \<open>FileUpload\<close>

text \<open>
  \<open>UploadStatus\<close> of the source. Its field \<open>status\<close> is \<open>upload_state\<close> here, and
  \<open>message\<close> and \<open>filename\<close> are \<open>status_message\<close> and \<open>status_filename\<close>; a field
  that is left out is \<open>None\<close>.
\<close>

datatype upload_state = Idle | Uploading | Success | Failure

record upload_status =
  upload_state :: upload_state
  status_message :: "js_string option"
  status_filename :: "js_string option"
  numPages :: "real option"
  numChunks :: "real option"
  processingTime :: "real option"

definition status_only :: "upload_state \<Rightarrow> upload_status" where
  "status_only k =
     \<lparr>upload_state = k, status_message = None, status_filename = None,
      numPages = None, numChunks = None, processingTime = None\<rparr>"

text \<open>The props: whether each of the two optional callbacks is given.\<close>

record file_upload_props =
  onUploadSuccess :: bool
  onUploadError :: bool

text \<open>
  What a handler does, in order: the state updates, the call of \<open>uploadFile\<close>, the
  request it sends, the calls of the callbacks that are given, the timer that resets
  the status, and the reset of the file input.
\<close>

datatype action =
    SetIsDragging bool
  | SetUploadStatus upload_status
  | UploadFile js_file
  | Fetch http_request
  | OnUploadSuccess
  | OnUploadError js_string
  | SetTimeout nat upload_status
  | ClearFileInput

text \<open>The fields the code reads from the body of the upload response.\<close>

record upload_reply =
  reply_status :: "js_string option"
  reply_filename :: "js_string option"
  reply_num_pages :: "real option"
  reply_num_chunks :: "real option"
  reply_processing_time :: "real option"
  reply_error :: "js_string option"

definition upload_request :: "js_file \<Rightarrow> http_request" where
  "upload_request f =
     \<lparr>url = js ''http://localhost:5001/api/upload'',
      http_method = js ''POST'',
      headers = [],
      body = FormData [(js ''file'', f)]\<rparr>"

text \<open>An optional call \<open>callback?.(...)\<close>: made when the callback is given.\<close>

definition optional_call :: "bool \<Rightarrow> action \<Rightarrow> action list" where
  "optional_call given a = (if given then [a] else [])"

definition report_error :: "file_upload_props \<Rightarrow> js_string \<Rightarrow> action list" where
  "report_error props errorMsg =
     SetUploadStatus ((status_only Failure)\<lparr>status_message := Some errorMsg\<rparr>) #
     optional_call (onUploadError props) (OnUploadError errorMsg)"

text \<open>
  \<open>uploadFile\<close>, from its call to its end; \<open>server\<close> is the other end of \<open>fetch\<close>.
  A rejected \<open>fetch\<close>, a body that is not JSON and a \<open>null\<close> body (reading
  \<open>data.status\<close>, or \<open>data.error\<close> when the response is not ok, raises) all end in the
  \<open>catch\<close> block. The file input is taken to be mounted when the function ends.
\<close>

definition uploadFile ::
  "file_upload_props \<Rightarrow> (http_request \<Rightarrow> upload_reply fetch_result) \<Rightarrow> js_file \<Rightarrow> action list" where
  "uploadFile props server f =
     [UploadFile f,
      SetUploadStatus ((status_only Uploading)
        \<lparr>status_message := Some (js ''Uploading and processing PDF...''),
         status_filename := Some (file_name f)\<rparr>),
      Fetch (upload_request f)] @
     (case server (upload_request f) of
        Response ok (JsonValue data) \<Rightarrow>
          if ok \<and> reply_status data = Some (js ''success'') then
            [SetUploadStatus
               \<lparr>upload_state = Success,
                status_message = Some (js ''PDF processed successfully!''),
                status_filename = reply_filename data,
                numPages = reply_num_pages data,
                numChunks = reply_num_chunks data,
                processingTime = reply_processing_time data\<rparr>] @
            optional_call (onUploadSuccess props) OnUploadSuccess @
            [SetTimeout 3000 (status_only Idle)]
          else
            report_error props
              (case reply_error data of
                 Some e \<Rightarrow> if truthy e then e else js ''Failed to upload PDF''
               | None \<Rightarrow> js ''Failed to upload PDF'')
      | _ \<Rightarrow>
          report_error props (js ''Network error. Please ensure the server is running.'')) @
     [ClearFileInput]"

text \<open>
  \<open>handleDrop\<close> and \<open>handleFileSelect\<close>; \<open>files\<close> is the file list of the event, or
  \<open>None\<close> when the event has none.
\<close>

definition handleDrop ::
  "file_upload_props \<Rightarrow> (http_request \<Rightarrow> upload_reply fetch_result) \<Rightarrow> js_file list option
     \<Rightarrow> action list" where
  "handleDrop props server files =
     SetIsDragging False #
     (case files of
        Some (f # rest) \<Rightarrow>
          if file_type f = js ''application/pdf'' then uploadFile props server f
          else report_error props (js ''Only PDF files are allowed'')
      | _ \<Rightarrow> [])"

definition handleFileSelect ::
  "file_upload_props \<Rightarrow> (http_request \<Rightarrow> upload_reply fetch_result) \<Rightarrow> js_file list option
     \<Rightarrow> action list" where
  "handleFileSelect props server files =
     (case files of
        Some (f # rest) \<Rightarrow>
          if file_type f = js ''application/pdf'' then uploadFile props server f
          else report_error props (js ''Only PDF files are allowed'')
      | _ \<Rightarrow> [])"

text \<open>The state of the component after the actions of a handler.\<close>

record file_upload_state =
  isDragging :: bool
  uploadStatus :: upload_status

fun run_action :: "file_upload_state \<Rightarrow> action \<Rightarrow> file_upload_state" where
  "run_action st (SetIsDragging b) = st\<lparr>isDragging := b\<rparr>"
| "run_action st (SetUploadStatus u) = st\<lparr>uploadStatus := u\<rparr>"
| "run_action st _ = st"

definition run_actions :: "file_upload_state \<Rightarrow> action list \<Rightarrow> file_upload_state" where
  "run_actions st as = foldl run_action st as"

text \<open>The upload requests among the actions, and the files \<open>uploadFile\<close> was called with.\<close>

fun upload_requests :: "action list \<Rightarrow> http_request list" where
  "upload_requests [] = []"
| "upload_requests (Fetch r # as) = r # upload_requests as"
| "upload_requests (_ # as) = upload_requests as"

fun uploaded_files :: "action list \<Rightarrow> js_file list" where
  "uploaded_files [] = []"
| "uploaded_files (UploadFile f # as) = f # uploaded_files as"
| "uploaded_files (_ # as) = uploaded_files as"

fun error_calls :: "action list \<Rightarrow> js_string list" where
  "error_calls [] = []"
| "error_calls (OnUploadError m # as) = m # error_calls as"
| "error_calls (_ # as) = error_calls as"

section \<open>UploadHistory\<close>

text \<open>
  \<open>Upload\<close> of the source, the record of one document as the uploads listing carries
  it. Its field \<open>id\<close> is \<open>upload_id\<close> here; a field that is \<open>null\<close> is \<open>None\<close>.
\<close>

record upload =
  upload_id :: nat
  filename :: js_string
  original_filename :: js_string
  file_size :: nat
  upload_timestamp :: js_string
  status :: js_string
  num_pages :: "nat option"
  num_chunks :: "nat option"
  processing_time_seconds :: "real option"
  error_message :: "js_string option"

record upload_history_state =
  uploads :: "upload list"
  loading :: bool
  error :: "js_string option"

record uploads_reply =
  listing_status :: "js_string option"
  listing_uploads :: "upload list"

definition uploads_request :: http_request where
  "uploads_request =
     \<lparr>url = js ''http://localhost:5001/api/uploads'',
      http_method = js ''GET'',
      headers = [],
      body = NoBody\<rparr>"

text \<open>
  \<open>fetchUploads\<close>, from its call to the end of its \<open>finally\<close> block. With a \<open>null\<close>
  body, \<open>data.status\<close> is read, and raises, only when the response is ok.
\<close>

definition fetchUploads ::
  "(http_request \<Rightarrow> uploads_reply fetch_result) \<Rightarrow> upload_history_state
     \<Rightarrow> upload_history_state" where
  "fetchUploads server st =
     (let st1 = st\<lparr>loading := True\<rparr>;
          st2 =
            (case server uploads_request of
               Response ok (JsonValue data) \<Rightarrow>
                 if ok \<and> listing_status data = Some (js ''success'')
                 then st1\<lparr>uploads := listing_uploads data, error := None\<rparr>
                 else st1\<lparr>error := Some (js ''Failed to load upload history'')\<rparr>
             | Response False JsonNull \<Rightarrow>
                 st1\<lparr>error := Some (js ''Failed to load upload history'')\<rparr>
             | _ \<Rightarrow>
                 st1\<lparr>error := Some (js ''Network error. Please ensure the server is running.'')\<rparr>)
      in st2\<lparr>loading := False\<rparr>)"

datatype status_icon = SuccessIcon | ProcessingIcon | ErrorIcon

definition getStatusIcon :: "js_string \<Rightarrow> status_icon option" where
  "getStatusIcon s =
     (if s = js ''completed'' then Some SuccessIcon
      else if s = js ''processing'' then Some ProcessingIcon
      else if s = js ''failed'' then Some ErrorIcon
      else None)"

section \<open>Chunker\<close>

text \<open>
  Modelled from the spec: the Chunker (section 4.1); the back end that splits the
  extracted text is not among the sources. Chunk \<open>i\<close> starts at
  \<open>i * (chunk_size - overlap)\<close> and spans \<open>chunk_size\<close> characters; the chunk that
  reaches the end of the text is the final one and holds what remains; the empty text
  yields no chunk. The contract is given for \<open>overlap < chunk_size\<close> only; outside it
  the model yields no chunk. A text is a list of characters of any type \<open>'c\<close>.
\<close>

function split_text :: "nat \<Rightarrow> nat \<Rightarrow> 'c list \<Rightarrow> 'c list list" where
  "split_text sz ov tx =
     (if tx = [] \<or> sz \<le> ov then []
      else if length tx \<le> sz then [tx]
      else take sz tx # split_text sz ov (drop (sz - ov) tx))"
  by pat_completeness auto
termination
  by (relation "measure (\<lambda>(sz, ov, tx). length tx)") auto

text \<open>
  Modelled from the spec: the Chunk of the data model (section 3), with its source
  document id, its ordinal index, its raw text span and its character length.
\<close>

record 'c chunk =
  source_document_id :: nat
  ordinal :: nat
  text_span :: "'c list"
  char_length :: nat

definition chunker :: "nat \<Rightarrow> nat \<Rightarrow> nat \<Rightarrow> 'c list \<Rightarrow> 'c chunk list" where
  "chunker doc sz ov tx =
     map (\<lambda>(i, s). \<lparr>source_document_id = doc, ordinal = i, text_span = s,
                     char_length = length s\<rparr>)
       (enumerate 0 (split_text sz ov tx))"

text \<open>
  Modelled from the spec: the concatenation of the chunks with the overlaps removed
  (section 8): the first span, then every later span without its first \<open>overlap\<close>
  characters.
\<close>

definition reassemble :: "nat \<Rightarrow> 'c list list \<Rightarrow> 'c list" where
  "reassemble ov spans =
     (case spans of [] \<Rightarrow> [] | s # rest \<Rightarrow> s @ concat (map (drop ov) rest))"

section \<open>Vector index\<close>

text \<open>
  Modelled from the spec: the record of the vector index (sections 3 and 4.3), one per
  chunk, with the key \<open>(document_id, chunk_ordinal)\<close>; the vector store is not among
  the sources. A vector is a value of any type \<open>'v\<close>. The index is the list of its
  records in the order of their insertion.
\<close>

record ('c, 'v) index_record =
  document_id :: nat
  chunk_ordinal :: nat
  vector :: 'v
  chunk_text :: "'c list"
  metadata :: "(string \<times> string) list"

definition record_key :: "('c, 'v) index_record \<Rightarrow> nat \<times> nat" where
  "record_key r = (document_id r, chunk_ordinal r)"

text \<open>
  Modelled from the spec: \<open>upsert\<close> (section 4.3) replaces the record of the same
  \<open>(document_id, chunk_ordinal)\<close>, where there is one, and adds the record otherwise.
\<close>

definition upsert ::
  "nat \<Rightarrow> nat \<Rightarrow> 'v \<Rightarrow> 'c list \<Rightarrow> (string \<times> string) list \<Rightarrow> ('c, 'v) index_record list
     \<Rightarrow> ('c, 'v) index_record list" where
  "upsert doc ord vec tx meta idx =
     (let r = \<lparr>document_id = doc, chunk_ordinal = ord, vector = vec, chunk_text = tx,
               metadata = meta\<rparr>
      in if (doc, ord) \<in> set (map record_key idx)
         then map (\<lambda>x. if record_key x = (doc, ord) then r else x) idx
         else idx @ [r])"

text \<open>
  Modelled from the spec: \<open>delete_document\<close> (section 4.3) removes all chunks that
  belong to a document.
\<close>

definition delete_document ::
  "nat \<Rightarrow> ('c, 'v) index_record list \<Rightarrow> ('c, 'v) index_record list" where
  "delete_document doc idx = filter (\<lambda>x. document_id x \<noteq> doc) idx"

text \<open>
  Modelled from the spec: what the index holds of one document (the chunks
  \<open>delete_document\<close> removes) and under one key (the record \<open>upsert\<close> replaces).
\<close>

definition chunks_of ::
  "nat \<Rightarrow> ('c, 'v) index_record list \<Rightarrow> ('c, 'v) index_record list" where
  "chunks_of doc idx = filter (\<lambda>x. document_id x = doc) idx"

definition records_at ::
  "nat \<Rightarrow> nat \<Rightarrow> ('c, 'v) index_record list \<Rightarrow> ('c, 'v) index_record list" where
  "records_at doc ord idx = filter (\<lambda>x. record_key x = (doc, ord)) idx"

text \<open>
  Modelled from the spec: the operations that change the index (section 4.3) as
  values, one step of the index, and the index a sequence of operations builds from
  the empty one.
\<close>

datatype ('c, 'v) index_op =
    Upsert nat nat 'v "'c list" "(string \<times> string) list"
  | DeleteDocument nat

fun index_step :: "('c, 'v) index_record list \<Rightarrow> ('c, 'v) index_op \<Rightarrow> ('c, 'v) index_record list" where
  "index_step idx (Upsert doc ord vec tx meta) = upsert doc ord vec tx meta idx"
| "index_step idx (DeleteDocument doc) = delete_document doc idx"

definition build_index :: "('c, 'v) index_op list \<Rightarrow> ('c, 'v) index_record list" where
  "build_index ops = foldl index_step [] ops"

section \<open>Upload ledger\<close>

text \<open>
  Modelled from the spec: the Upload Ledger (sections 3 and 4.7), which owns the
  Document records and their status; the back end that keeps them is not among the
  sources. A Document is held as the record \<open>upload\<close> that the listing carries:
  \<open>upload_id\<close> is the stable id, \<open>filename\<close> the stored path reference,
  \<open>original_filename\<close> the original filename, \<open>file_size\<close> the byte size,
  \<open>upload_timestamp\<close> the upload timestamp, \<open>status\<close> the lifecycle status,
  \<open>num_pages\<close> and \<open>num_chunks\<close> the page and chunk counts,
  \<open>processing_time_seconds\<close> the processing duration and \<open>error_message\<close> the last
  error message. The ledger is the list of its Documents in the order of their
  creation.
\<close>

definition queued :: js_string where "queued = js ''queued''"
definition processing :: js_string where "processing = js ''processing''"
definition completed :: js_string where "completed = js ''completed''"
definition failed :: js_string where "failed = js ''failed''"

text \<open>
  Modelled from the spec: a Document is created on the upload request, in status
  \<open>queued\<close>, with no counts, no duration and no error. A request with the id of a
  Document of the ledger is a new upload under that id and takes its place.
\<close>

definition new_document :: "nat \<Rightarrow> js_string \<Rightarrow> js_string \<Rightarrow> nat \<Rightarrow> js_string \<Rightarrow> upload" where
  "new_document doc original stored bytes stamp =
     \<lparr>upload_id = doc, filename = stored, original_filename = original,
      file_size = bytes, upload_timestamp = stamp, status = queued,
      num_pages = None, num_chunks = None, processing_time_seconds = None,
      error_message = None\<rparr>"

definition register_document ::
  "nat \<Rightarrow> js_string \<Rightarrow> js_string \<Rightarrow> nat \<Rightarrow> js_string \<Rightarrow> upload list \<Rightarrow> upload list" where
  "register_document doc original stored bytes stamp ledger =
     (let d = new_document doc original stored bytes stamp
      in if doc \<in> set (map upload_id ledger)
         then map (\<lambda>x. if upload_id x = doc then d else x) ledger
         else ledger @ [d])"

text \<open>
  Modelled from the spec: the status advances \<open>queued\<close>, \<open>processing\<close>, then
  \<open>completed\<close> or \<open>failed\<close>, and is terminal once \<open>completed\<close> or \<open>failed\<close>; \<open>failed\<close> is
  reached from any status that is not terminal, with a message. The page count is
  recorded while the Document is processed; the chunk count and the elapsed time are
  recorded on completion.
\<close>

definition update_document :: "nat \<Rightarrow> (upload \<Rightarrow> upload) \<Rightarrow> upload list \<Rightarrow> upload list" where
  "update_document doc f ledger = map (\<lambda>x. if upload_id x = doc then f x else x) ledger"

definition mark_processing :: "nat \<Rightarrow> upload list \<Rightarrow> upload list" where
  "mark_processing doc ledger =
     update_document doc
       (\<lambda>x. if status x = queued then x\<lparr>status := processing\<rparr> else x) ledger"

definition record_page_count :: "nat \<Rightarrow> nat \<Rightarrow> upload list \<Rightarrow> upload list" where
  "record_page_count doc pages ledger =
     update_document doc
       (\<lambda>x. if status x = processing then x\<lparr>num_pages := Some pages\<rparr> else x) ledger"

definition mark_completed :: "nat \<Rightarrow> nat \<Rightarrow> real \<Rightarrow> upload list \<Rightarrow> upload list" where
  "mark_completed doc chunks seconds ledger =
     update_document doc
       (\<lambda>x. if status x = processing
            then x\<lparr>status := completed, num_chunks := Some chunks,
                   processing_time_seconds := Some seconds\<rparr>
            else x) ledger"

definition mark_failed :: "nat \<Rightarrow> js_string \<Rightarrow> upload list \<Rightarrow> upload list" where
  "mark_failed doc msg ledger =
     update_document doc
       (\<lambda>x. if status x = queued \<or> status x = processing
            then x\<lparr>status := failed, error_message := Some msg\<rparr>
            else x) ledger"

text \<open>
  Modelled from the spec: \<open>list_documents\<close> (section 6) exposes the Documents; the
  Document that \<open>ingest\<close> returns is the one the ledger holds under the id.
\<close>

definition list_documents :: "upload list \<Rightarrow> upload list" where
  "list_documents ledger = ledger"

definition find_document :: "nat \<Rightarrow> upload list \<Rightarrow> upload option" where
  "find_document doc ledger = find (\<lambda>x. upload_id x = doc) ledger"

text \<open>
  Modelled from the spec: the operations that change the ledger as values, one step of
  the ledger, and the ledger a sequence of operations builds from the empty one; and
  the four statuses of the lifecycle (section 3).
\<close>

datatype ledger_op =
    Register nat js_string js_string nat js_string
  | MarkProcessing nat
  | RecordPageCount nat nat
  | MarkCompleted nat nat real
  | MarkFailed nat js_string

fun ledger_step :: "upload list \<Rightarrow> ledger_op \<Rightarrow> upload list" where
  "ledger_step ledger (Register doc original stored bytes stamp) =
     register_document doc original stored bytes stamp ledger"
| "ledger_step ledger (MarkProcessing doc) = mark_processing doc ledger"
| "ledger_step ledger (RecordPageCount doc pages) = record_page_count doc pages ledger"
| "ledger_step ledger (MarkCompleted doc chunks seconds) =
     mark_completed doc chunks seconds ledger"
| "ledger_step ledger (MarkFailed doc msg) = mark_failed doc msg ledger"

definition build_ledger :: "ledger_op list \<Rightarrow> upload list" where
  "build_ledger ops = foldl ledger_step [] ops"

definition lifecycle :: "js_string set" where
  "lifecycle = {queued, processing, completed, failed}"

section \<open>Ingestion pipeline\<close>

text \<open>
  Modelled from the spec: the error taxonomy (section 7); a failure carries its kind
  and its message for the reader.
\<close>

datatype failure_kind =
  ExtractionFailure | EmbeddingFailure | IndexFailure | GenerationFailure | InvalidArgument

type_synonym failure = "failure_kind \<times> js_string"

text \<open>
  Modelled from the spec: the configuration knobs and their defaults (section 6).
\<close>

record config =
  chunk_size :: nat
  overlap :: nat
  retrieval_top_k :: int
  temperature :: real
  max_tokens :: nat

definition default_config :: config where
  "default_config =
     \<lparr>chunk_size = 400, overlap = 200, retrieval_top_k = 3, temperature = 1 / 10,
      max_tokens = 1024\<rparr>"

text \<open>
  Modelled from the spec: the capabilities the pipeline consumes (sections 4.2, 4.3
  and 6), none of which is among the sources: text extraction (the page texts and the
  page count, or a failure), the embedder (a vector, or a failure), and the verdict
  of the persistence layer on the write of a record (\<open>None\<close> when the write goes
  through). The file storage gives the stored path, and the clock the timestamp of the
  upload and the seconds the processing took.
\<close>

record ('c, 'v) capabilities =
  extract_text :: "8 word list \<Rightarrow> failure + 'c list list \<times> nat"
  embed :: "'c list \<Rightarrow> failure + 'v"
  store_write :: "('c, 'v) index_record \<Rightarrow> failure option"
  stored_path :: "nat \<Rightarrow> js_string \<Rightarrow> js_string"
  clock :: js_string
  elapsed :: real

text \<open>
  Modelled from the spec: \<open>embed_many\<close> (section 4.2) embeds the texts in their order,
  one vector per text; the failure of one text is the failure of the batch.
\<close>

fun embed_many :: "('c list \<Rightarrow> failure + 'v) \<Rightarrow> 'c list list \<Rightarrow> failure + 'v list" where
  "embed_many emb [] = Inr []"
| "embed_many emb (t # ts) =
     (case emb t of
        Inl e \<Rightarrow> Inl e
      | Inr v \<Rightarrow> (case embed_many emb ts of Inl e \<Rightarrow> Inl e | Inr vs \<Rightarrow> Inr (v # vs)))"

text \<open>
  Modelled from the spec: the upserts of the indexing stage, one per pair of a chunk
  and its vector, in the order of the chunks. A failed write stops them; the result is
  the failure, if there is one, and the index with the writes made so far.
\<close>

fun upsert_all ::
  "(('c, 'v) index_record \<Rightarrow> failure option) \<Rightarrow> ('c, 'v) index_record list
     \<Rightarrow> ('c chunk \<times> 'v) list \<Rightarrow> failure option \<times> ('c, 'v) index_record list" where
  "upsert_all wr idx [] = (None, idx)"
| "upsert_all wr idx ((c, v) # rest) =
     (case wr \<lparr>document_id = source_document_id c, chunk_ordinal = ordinal c, vector = v,
               chunk_text = text_span c, metadata = []\<rparr> of
        Some e \<Rightarrow> (Some e, idx)
      | None \<Rightarrow>
          upsert_all wr (upsert (source_document_id c) (ordinal c) v (text_span c) [] idx) rest)"

text \<open>
  Modelled from the spec: the context that holds the ledger and the index (section 9).
\<close>

record ('c, 'v) rag_context =
  ledger :: "upload list"
  index :: "('c, 'v) index_record list"

text \<open>
  Modelled from the spec: \<open>ingest\<close> (sections 4.4 and 6). The Document is created and
  set to \<open>processing\<close>, and the chunks an earlier run left under its id are deleted.
  Then the stages follow: extraction (its failure fails the Document with no chunk
  created), chunking of the concatenated page texts (the page count is recorded),
  embedding of all chunks (a failure fails the Document and the writes made for it are
  rolled back with \<open>delete_document\<close>), indexing (the same on a failed write), and
  completion with the chunk count and the elapsed time. The result is the Document and
  the context after the run.
\<close>

definition ingest ::
  "('c, 'v) capabilities \<Rightarrow> config \<Rightarrow> nat \<Rightarrow> js_string \<Rightarrow> 8 word list \<Rightarrow> ('c, 'v) rag_context
     \<Rightarrow> upload option \<times> ('c, 'v) rag_context" where
  "ingest caps cfg doc name bytes ctx =
     (let l0 = register_document doc name (stored_path caps doc name) (length bytes)
                 (clock caps) (ledger ctx);
          l1 = mark_processing doc l0;
          i1 = delete_document doc (index ctx);
          ctx' =
            (case extract_text caps bytes of
               Inl e \<Rightarrow> \<lparr>ledger = mark_failed doc (snd e) l1, index = i1\<rparr>
             | Inr (page_texts, page_count) \<Rightarrow>
                 let l2 = record_page_count doc page_count l1;
                     chunks = chunker doc (chunk_size cfg) (overlap cfg) (concat page_texts)
                 in (case embed_many (embed caps) (map text_span chunks) of
                       Inl e \<Rightarrow>
                         \<lparr>ledger = mark_failed doc (snd e) l2,
                          index = delete_document doc i1\<rparr>
                     | Inr vectors \<Rightarrow>
                         (case upsert_all (store_write caps) i1 (zip chunks vectors) of
                            (Some e, i2) \<Rightarrow>
                              \<lparr>ledger = mark_failed doc (snd e) l2,
                               index = delete_document doc i2\<rparr>
                          | (None, i2) \<Rightarrow>
                              \<lparr>ledger = mark_completed doc (length chunks) (elapsed caps) l2,
                               index = i2\<rparr>)))
      in (find_document doc (ledger ctx'), ctx'))"

text \<open>
  Modelled from the spec: the rollback discipline (section 7), as a property of a
  context: the index holds chunks of completed Documents only, that is, every Document
  of the ledger that has the id of a record of the index is \<open>completed\<close>.
\<close>

definition index_consistent :: "('c, 'v) rag_context \<Rightarrow> bool" where
  "index_consistent ctx \<longleftrightarrow>
     (\<forall>r \<in> set (index ctx). \<forall>d \<in> set (ledger ctx).
        upload_id d = document_id r \<longrightarrow> status d = completed)"

text \<open>
  Capabilities for examples: the extraction gives one page with the text \<open>document\<close>,
  the embedder fails on the text \<open>bad\<close> and gives a vector for every other text, and
  every write goes through.
\<close>

definition sample_capabilities :: "string \<Rightarrow> string \<Rightarrow> (char, nat) capabilities" where
  "sample_capabilities document bad =
     \<lparr>extract_text = (\<lambda>bytes. Inr ([document], 1)),
      embed = (\<lambda>t. if t = bad then Inl (EmbeddingFailure, js ''input too long'')
                 else Inr (length t)),
      store_write = (\<lambda>r. None),
      stored_path = (\<lambda>doc name. name),
      clock = js ''2025-01-01T00:00:00'',
      elapsed = 1\<rparr>"

section \<open>Properties of the Chunker\<close>

declare split_text.simps [simp del]

lemma split_text_nth:
  "ov < sz \<Longrightarrow> i < length (split_text sz ov tx) \<Longrightarrow>
     split_text sz ov tx ! i = take sz (drop (i * (sz - ov)) tx)"
proof (induction sz ov tx arbitrary: i rule: split_text.induct)
  case (1 sz ov tx)
  show ?case
  proof (cases "tx = [] \<or> length tx \<le> sz")
    case True
    with "1.prems" show ?thesis
      by (auto simp: split_text.simps [of sz ov tx] split: if_splits)
  next
    case False
    then have unf: "split_text sz ov tx = take sz tx # split_text sz ov (drop (sz - ov) tx)"
      using "1.prems"(1) by (simp add: split_text.simps [of sz ov tx])
    show ?thesis
    proof (cases i)
      case 0
      then show ?thesis by (simp add: unf)
    next
      case (Suc j)
      with "1.prems" unf have "j < length (split_text sz ov (drop (sz - ov) tx))" by simp
      with "1.IH" [of j] False "1.prems"(1)
      have "split_text sz ov (drop (sz - ov) tx) ! j =
              take sz (drop (j * (sz - ov)) (drop (sz - ov) tx))" by simp
      then show ?thesis by (simp add: unf Suc add.commute)
    qed
  qed
qed

lemma split_text_overlap_removed:
  "ov < sz \<Longrightarrow> concat (map (drop ov) (split_text sz ov tx)) = drop ov tx"
proof (induction sz ov tx rule: split_text.induct)
  case (1 sz ov tx)
  show ?case
  proof (cases "tx = [] \<or> length tx \<le> sz")
    case True
    with "1.prems" show ?thesis
      by (auto simp: split_text.simps [of sz ov tx])
  next
    case False
    then have unf: "split_text sz ov tx = take sz tx # split_text sz ov (drop (sz - ov) tx)"
      using "1.prems" by (simp add: split_text.simps [of sz ov tx])
    have ih: "concat (map (drop ov) (split_text sz ov (drop (sz - ov) tx))) =
                drop ov (drop (sz - ov) tx)"
      using "1.IH" False "1.prems" by simp
    have "drop ov (drop (sz - ov) tx) = drop sz tx"
      using "1.prems" by simp
    moreover have "drop ov tx = drop ov (take sz tx) @ drop sz tx"
      using "1.prems" False
      by (metis append_take_drop_id drop_append length_take less_imp_le_nat min.absorb2 
           diff_is_0_eq drop0 nat_le_linear)
    ultimately show ?thesis by (simp add: unf ih)
  qed
qed

lemma ceil_div_one: "0 < a \<Longrightarrow> a \<le> s \<Longrightarrow> (a + s - 1) div s = (1::nat)"
proof -
  assume a: "0 < a" "a \<le> s"
  then have "s \<le> a + s - 1" "a + s - 1 < 2 * s" by auto
  then show ?thesis
    by (metis div_nat_eqI mult.commute nat_mult_1_right One_nat_def Suc_1 mult_Suc_right)
qed

lemma ceil_div_step: "0 < s \<Longrightarrow> (x + s + s - 1) div s = Suc ((x + s - 1) div s)"
proof -
  assume s: "0 < s"
  then have "x + s + s - 1 = (x + s - 1) + s" by simp
  then show ?thesis using s by (simp del: add_diff_assoc add_diff_assoc2)
qed

lemma ceil_as_div:
  assumes s: "0 < (s::nat)"
  shows "\<lceil>real a / real s\<rceil> = int ((a + s - 1) div s)"
proof -
  define q where "q = (a + s - 1) div s"
  have lo: "q * s \<le> a + s - 1"
    unfolding q_def by simp
  have hi: "a + s - 1 < q * s + s"
    unfolding q_def using s dividend_less_div_times [of s "a + s - 1"] by (simp add: mult.commute)
  from lo s have lo': "q * s < a + s" by linarith
  from hi have hi': "a \<le> q * s" by linarith
  have "real a \<le> real (q * s)" using hi' by (rule iffD2 [OF of_nat_le_iff])
  then have up: "real a / real s \<le> real_of_int (int q)"
    using s by (simp add: pos_divide_le_eq)
  have "real (q * s) < real (a + s)" using lo' by (rule iffD2 [OF of_nat_less_iff])
  then have "(real q - 1) * real s < real a" by (simp add: algebra_simps)
  then have down: "real_of_int (int q) - 1 < real a / real s"
    using s by (simp add: pos_less_divide_eq)
  from down up show ?thesis unfolding q_def [symmetric] by (rule ceiling_unique)
qed

lemma split_text_length:
  "ov < sz \<Longrightarrow>
     length (split_text sz ov tx) =
       (if tx = [] then 0
        else if length tx \<le> ov then 1
        else (length tx - ov + (sz - ov) - 1) div (sz - ov))"
proof (induction sz ov tx rule: split_text.induct)
  case (1 sz ov tx)
  note ov = \<open>ov < sz\<close>
  show ?case
  proof (cases "tx = []")
    case True
    then show ?thesis by (simp add: split_text.simps [of sz ov "[]"])
  next
    case ne: False
    show ?thesis
    proof (cases "length tx \<le> sz")
      case le: True
      have one: "length (split_text sz ov tx) = 1"
        using ne le ov by (simp add: split_text.simps [of sz ov tx])
      show ?thesis
      proof (cases "length tx \<le> ov")
        case True
        with ne one show ?thesis by simp
      next
        case False
        then have "0 < length tx - ov" "length tx - ov \<le> sz - ov"
          using le by simp_all
        then have "(length tx - ov + (sz - ov) - 1) div (sz - ov) = 1"
          by (rule ceil_div_one)
        with False ne one show ?thesis by (simp only: if_False)
      qed
    next
      case gt: False
      let ?rest = "drop (sz - ov) tx"
      have unf: "split_text sz ov tx = take sz tx # split_text sz ov ?rest"
        using ne gt ov by (simp add: split_text.simps [of sz ov tx])
      have not_stop: "\<not> (tx = [] \<or> sz \<le> ov)" using ne ov by simp
      have rest_len: "length ?rest = length tx - (sz - ov)" by simp
      have rest_ne: "?rest \<noteq> []" using gt ov by simp
      have rest_gt: "\<not> length ?rest \<le> ov" using gt ov by simp
      have "length (split_text sz ov ?rest) =
              (if ?rest = [] then 0
               else if length ?rest \<le> ov then 1
               else (length ?rest - ov + (sz - ov) - 1) div (sz - ov))"
        using not_stop gt ov by (rule "1.IH")
      then have ih: "length (split_text sz ov ?rest) =
                       (length ?rest - ov + (sz - ov) - 1) div (sz - ov)"
        using rest_ne rest_gt by (simp only: if_False)
      have split: "length tx - ov = (length ?rest - ov) + (sz - ov)"
        using gt ov by simp
      have pos: "0 < sz - ov" using ov by simp
      have "(length tx - ov + (sz - ov) - 1) div (sz - ov) =
              Suc ((length ?rest - ov + (sz - ov) - 1) div (sz - ov))"
        unfolding split using pos by (rule ceil_div_step)
      moreover have "\<not> length tx \<le> ov" using gt ov by simp
      moreover have "length (split_text sz ov tx) = Suc (length (split_text sz ov ?rest))"
        by (simp only: unf list.size(4) Suc_eq_plus1)
      ultimately show ?thesis using ne ih by (simp only: if_False)
    qed
  qed
qed

lemma split_text_full:
  "ov < sz \<Longrightarrow> Suc i < length (split_text sz ov tx) \<Longrightarrow>
     length (split_text sz ov tx ! i) = sz"
proof (induction sz ov tx arbitrary: i rule: split_text.induct)
  case (1 sz ov tx)
  show ?case
  proof (cases "tx = [] \<or> length tx \<le> sz")
    case True
    with "1.prems" show ?thesis
      by (auto simp: split_text.simps [of sz ov tx] split: if_splits)
  next
    case False
    then have unf: "split_text sz ov tx = take sz tx # split_text sz ov (drop (sz - ov) tx)"
      using "1.prems"(1) by (simp add: split_text.simps [of sz ov tx])
    show ?thesis
    proof (cases i)
      case 0
      with False show ?thesis by (simp add: unf)
    next
      case (Suc j)
      with "1.prems" unf have "Suc j < length (split_text sz ov (drop (sz - ov) tx))" by simp
      with "1.IH" [of j] False "1.prems"(1)
      have "length (split_text sz ov (drop (sz - ov) tx) ! j) = sz" by simp
      then show ?thesis by (simp add: unf Suc)
    qed
  qed
qed

lemma split_text_last:
  "ov < sz \<Longrightarrow> tx \<noteq> [] \<Longrightarrow>
     last (split_text sz ov tx) = drop ((length (split_text sz ov tx) - 1) * (sz - ov)) tx"
proof (induction sz ov tx rule: split_text.induct)
  case (1 sz ov tx)
  show ?case
  proof (cases "length tx \<le> sz")
    case True
    with "1.prems" show ?thesis
      by (simp add: split_text.simps [of sz ov tx])
  next
    case False
    then have unf: "split_text sz ov tx = take sz tx # split_text sz ov (drop (sz - ov) tx)"
      using "1.prems" by (simp add: split_text.simps [of sz ov tx])
    let ?rest = "split_text sz ov (drop (sz - ov) tx)"
    have ne: "drop (sz - ov) tx \<noteq> []" using False "1.prems" by simp
    then have rest_ne: "?rest \<noteq> []"
      using "1.prems"(1) by (simp add: split_text.simps [of sz ov "drop (sz - ov) tx"])
    have "last ?rest = drop ((length ?rest - 1) * (sz - ov)) (drop (sz - ov) tx)"
      using "1.IH" False "1.prems" ne by simp
    also have "\<dots> = drop (length ?rest * (sz - ov)) tx"
      using rest_ne by (cases ?rest) (simp_all add: add.commute)
    finally show ?thesis using rest_ne by (simp add: unf)
  qed
qed

lemma length_chunker: "length (chunker doc sz ov tx) = length (split_text sz ov tx)"
  by (simp add: chunker_def)

lemma chunker_nth:
  "i < length (split_text sz ov tx) \<Longrightarrow>
     chunker doc sz ov tx ! i =
       \<lparr>source_document_id = doc, ordinal = i, text_span = split_text sz ov tx ! i,
        char_length = length (split_text sz ov tx ! i)\<rparr>"
  by (simp add: chunker_def nth_enumerate_eq)

lemma text_span_chunker: "map text_span (chunker doc sz ov tx) = split_text sz ov tx"
  by (rule nth_equalityI) (simp_all add: length_chunker chunker_nth)

lemma reassemble_split_text:
  "ov < sz \<Longrightarrow> reassemble ov (split_text sz ov tx) = tx"
proof (cases "tx = [] \<or> length tx \<le> sz")
  case True
  assume "ov < sz"
  with True show ?thesis
    by (auto simp: reassemble_def split_text.simps [of sz ov tx] split_text.simps [of sz ov "[]"])
next
  case False
  assume ov: "ov < sz"
  with False have unf: "split_text sz ov tx = take sz tx # split_text sz ov (drop (sz - ov) tx)"
    by (simp add: split_text.simps [of sz ov tx])
  have "concat (map (drop ov) (split_text sz ov (drop (sz - ov) tx))) = drop ov (drop (sz - ov) tx)"
    using ov by (rule split_text_overlap_removed)
  also have "\<dots> = drop sz tx" using ov by simp
  finally show ?thesis by (simp add: reassemble_def unf)
qed

text \<open>
  C1. For every text, chunk size and overlap with \<open>overlap < chunk_size\<close>, the
  Chunker produces chunks where chunk \<open>i\<close> has ordinal \<open>i\<close>, starts at the offset
  \<open>i * (chunk_size - overlap)\<close> and spans \<open>chunk_size\<close> characters, the final chunk
  being cut to the text that remains; the chunks with the overlaps removed give the
  text back; and the number of chunks is the ceiling of
  \<open>(length - overlap) / (chunk_size - overlap)\<close> when the text is longer than the
  overlap, 1 when it is not empty and no longer than the overlap, and 0 when it is
  empty.
\<close>

theorem chunker_contract:
  assumes "ov < sz" and "cs = chunker doc sz ov tx" and "n = length cs"
  shows "(\<forall>i<n. source_document_id (cs ! i) = doc \<and> ordinal (cs ! i) = i \<and>
            text_span (cs ! i) = take sz (drop (i * (sz - ov)) tx) \<and>
            char_length (cs ! i) = length (text_span (cs ! i))) \<and>
         (\<forall>i. Suc i < n \<longrightarrow> length (text_span (cs ! i)) = sz) \<and>
         (0 < n \<longrightarrow> text_span (cs ! (n - 1)) = drop ((n - 1) * (sz - ov)) tx) \<and>
         reassemble ov (map text_span cs) = tx \<and>
         (ov < length tx \<longrightarrow> int n = \<lceil>real (length tx - ov) / real (sz - ov)\<rceil>) \<and>
         (0 < length tx \<and> length tx \<le> ov \<longrightarrow> n = 1) \<and>
         (tx = [] \<longrightarrow> n = 0)"
proof -
  let ?sp = "split_text sz ov tx"
  have n: "n = length ?sp" using assms by (simp add: length_chunker)
  have nth: "\<And>i. i < n \<Longrightarrow> cs ! i =
      \<lparr>source_document_id = doc, ordinal = i, text_span = ?sp ! i,
       char_length = length (?sp ! i)\<rparr>"
    using assms(2) n by (simp add: chunker_nth)
  have c1: "\<forall>i<n. source_document_id (cs ! i) = doc \<and> ordinal (cs ! i) = i \<and>
            text_span (cs ! i) = take sz (drop (i * (sz - ov)) tx) \<and>
            char_length (cs ! i) = length (text_span (cs ! i))"
    using nth n by (auto simp: split_text_nth [OF assms(1)])
  have c2: "\<forall>i. Suc i < n \<longrightarrow> length (text_span (cs ! i)) = sz"
    using nth n by (auto simp: split_text_full [OF assms(1)])
  have c3: "0 < n \<longrightarrow> text_span (cs ! (n - 1)) = drop ((n - 1) * (sz - ov)) tx"
  proof
    assume pos: "0 < n"
    then have ne: "?sp \<noteq> []" using n by auto
    then have "tx \<noteq> []" by (auto simp: split_text.simps [of sz ov "[]"])
    then have "last ?sp = drop ((n - 1) * (sz - ov)) tx"
      using split_text_last [OF assms(1)] n by simp
    moreover have "last ?sp = ?sp ! (n - 1)" using ne n by (simp add: last_conv_nth)
    ultimately show "text_span (cs ! (n - 1)) = drop ((n - 1) * (sz - ov)) tx"
      using nth [of "n - 1"] pos by simp
  qed
  have c4: "reassemble ov (map text_span cs) = tx"
    using assms by (simp add: text_span_chunker reassemble_split_text)
  have len: "n = (if tx = [] then 0 else if length tx \<le> ov then 1
                  else (length tx - ov + (sz - ov) - 1) div (sz - ov))"
    unfolding n by (rule split_text_length [OF assms(1)])
  have c5: "ov < length tx \<longrightarrow> int n = \<lceil>real (length tx - ov) / real (sz - ov)\<rceil>"
  proof
    assume "ov < length tx"
    then have "n = (length tx - ov + (sz - ov) - 1) div (sz - ov)" using len by auto
    then show "int n = \<lceil>real (length tx - ov) / real (sz - ov)\<rceil>"
      using ceil_as_div [of "sz - ov" "length tx - ov"] assms(1) by simp
  qed
  have c6: "0 < length tx \<and> length tx \<le> ov \<longrightarrow> n = 1" using len by auto
  have c7: "tx = [] \<longrightarrow> n = 0" using len by simp
  from c1 c2 c3 c4 c5 c6 c7 show ?thesis by (intro conjI)
qed

theorem chunker_contract_witness:
  "chunker 7 4 2 ''abcdefghi'' =
     [\<lparr>source_document_id = 7, ordinal = 0, text_span = ''abcd'', char_length = 4\<rparr>,
      \<lparr>source_document_id = 7, ordinal = 1, text_span = ''cdef'', char_length = 4\<rparr>,
      \<lparr>source_document_id = 7, ordinal = 2, text_span = ''efgh'', char_length = 4\<rparr>,
      \<lparr>source_document_id = 7, ordinal = 3, text_span = ''ghi'', char_length = 3\<rparr>] \<and>
   reassemble 2 (map text_span (chunker 7 4 2 ''abcdefghi'')) = ''abcdefghi'' \<and>
   int (length (chunker 7 4 2 ''abcdefghi'')) = \<lceil>real (9 - 2) / real (4 - 2)\<rceil>"
proof -
  have c: "chunker 7 4 2 ''abcdefghi'' =
     [\<lparr>source_document_id = 7, ordinal = 0, text_span = ''abcd'', char_length = 4\<rparr>,
      \<lparr>source_document_id = 7, ordinal = 1, text_span = ''cdef'', char_length = 4\<rparr>,
      \<lparr>source_document_id = 7, ordinal = 2, text_span = ''efgh'', char_length = 4\<rparr>,
      \<lparr>source_document_id = 7, ordinal = 3, text_span = ''ghi'', char_length = 3\<rparr>]"
    by (simp add: chunker_def split_text.simps)
  have h: "(2::nat) < 4" by simp
  have "reassemble 2 (map text_span (chunker 7 4 2 ''abcdefghi'')) = ''abcdefghi'' \<and>
        (2 < length ''abcdefghi'' \<longrightarrow>
           int (length (chunker 7 4 2 ''abcdefghi'')) =
             \<lceil>real (length ''abcdefghi'' - 2) / real (4 - 2 :: nat)\<rceil>)"
    using chunker_contract [OF h refl refl, of 7 "''abcdefghi''"] by blast
  then show ?thesis using c by simp
qed

section \<open>Properties of InputBox\<close>

text \<open>
  C9. InputBox never emits a blank message: when the trimmed input is empty, or the
  component is disabled, \<open>handleSend\<close> does not call \<open>onSendMessage\<close> (and leaves the
  field as it is); when it does call it, the argument is the input as typed, not
  trimmed, and the field is reset to the empty string. The same holds of the key
  handler, which sends through \<open>handleSend\<close> only.
\<close>

theorem handleSend_never_blank:
  "(trim input = [] \<or> disabled \<longrightarrow> handleSend disabled input = (None, input)) \<and>
   (\<forall>m. fst (handleSend disabled input) = Some m \<longrightarrow>
      m = input \<and> trim m \<noteq> [] \<and> \<not> disabled \<and> snd (handleSend disabled input) = []) \<and>
   (trim input = [] \<or> disabled \<longrightarrow> handleKeyDown disabled input key shiftKey = (None, input)) \<and>
   (\<forall>m. fst (handleKeyDown disabled input key shiftKey) = Some m \<longrightarrow>
      m = input \<and> trim m \<noteq> [] \<and> \<not> disabled)"
  by (simp add: handleSend_def handleKeyDown_def truthy_def js_def)

theorem handleSend_never_blank_witness:
  "handleSend False (js ''  '') = (None, js ''  '') \<and>
   handleSend True (js ''hi'') = (None, js ''hi'') \<and>
   handleSend False (js '' hi '') = (Some (js '' hi ''), [])"
  using handleSend_never_blank [of "js ''  ''" False]
    handleSend_never_blank [of "js ''hi''" True]
    handleSend_never_blank [of "js '' hi ''" False]
  by (simp add: handleSend_def truthy_def trim_def is_white_space_def js_def)

section \<open>Properties of the vector index\<close>

lemma record_key_simps:
  "record_key \<lparr>document_id = d, chunk_ordinal = k, vector = v, chunk_text = t, metadata = m\<rparr> = (d, k)"
  by (simp add: record_key_def)

lemma keys_upsert:
  "map record_key (upsert doc ord vec tx meta idx) =
     (if (doc, ord) \<in> set (map record_key idx) then map record_key idx
      else map record_key idx @ [(doc, ord)])"
  by (induction idx) (auto simp: upsert_def Let_def record_key_simps)

lemma distinct_keys_upsert:
  "distinct (map record_key idx) \<Longrightarrow> distinct (map record_key (upsert doc ord vec tx meta idx))"
  by (simp only: keys_upsert split: if_split) simp

lemma distinct_keys_delete_document:
  "distinct (map record_key idx) \<Longrightarrow> distinct (map record_key (delete_document doc idx))"
  by (simp add: delete_document_def distinct_map_filter)

lemma distinct_keys_index_step:
  "distinct (map record_key idx) \<Longrightarrow> distinct (map record_key (index_step idx op))"
  by (cases op) (simp_all add: distinct_keys_upsert distinct_keys_delete_document)

lemma distinct_keys_foldl:
  "distinct (map record_key idx) \<Longrightarrow> distinct (map record_key (foldl index_step idx ops))"
  by (induction ops arbitrary: idx) (simp_all add: distinct_keys_index_step)

lemma distinct_keys_build_index: "distinct (map record_key (build_index ops))"
  by (simp add: build_index_def distinct_keys_foldl)

lemma records_at_replace:
  "distinct (map record_key idx) \<Longrightarrow> k \<in> set (map record_key idx) \<Longrightarrow> record_key r = k \<Longrightarrow>
     filter (\<lambda>x. record_key x = k) (map (\<lambda>x. if record_key x = k then r else x) idx) = [r]"
proof (induction idx)
  case Nil
  then show ?case by simp
next
  case (Cons a idx)
  show ?case
  proof (cases "record_key a = k")
    case True
    with Cons.prems have "k \<notin> set (map record_key idx)" by auto
    then have "map (\<lambda>x. if record_key x = k then r else x) idx = idx"
      by (induction idx) auto
    moreover have "filter (\<lambda>x. record_key x = k) idx = []"
      using \<open>k \<notin> set (map record_key idx)\<close> by (induction idx) auto
    ultimately show ?thesis using True Cons.prems(3) by simp
  next
    case False
    with Cons show ?thesis by auto
  qed
qed

lemma records_at_upsert:
  "distinct (map record_key idx) \<Longrightarrow>
     records_at doc ord (upsert doc ord vec tx meta idx) =
       [\<lparr>document_id = doc, chunk_ordinal = ord, vector = vec, chunk_text = tx, metadata = meta\<rparr>]"
proof (cases "(doc, ord) \<in> set (map record_key idx)")
  case True
  assume "distinct (map record_key idx)"
  with True show ?thesis
    unfolding records_at_def upsert_def Let_def
    by (simp only: if_True records_at_replace record_key_simps)
next
  case False
  then have "filter (\<lambda>x. record_key x = (doc, ord)) idx = []"
    by (induction idx) auto
  with False show ?thesis
    by (simp add: records_at_def upsert_def Let_def record_key_simps)
qed

text \<open>
  C7. The upsert is idempotent per chunk identity: on every index built by upserts and
  deletions, the upsert of the same \<open>(document_id, chunk_ordinal)\<close> twice, with any two
  vectors and texts, leaves exactly one record for that key, the one with the latest
  vector and text, and the second upsert adds no record.
\<close>

theorem upsert_idempotent:
  "records_at doc ord
     (upsert doc ord vec2 tx2 meta2 (upsert doc ord vec1 tx1 meta1 (build_index ops))) =
     [\<lparr>document_id = doc, chunk_ordinal = ord, vector = vec2, chunk_text = tx2,
       metadata = meta2\<rparr>] \<and>
   length (upsert doc ord vec2 tx2 meta2 (upsert doc ord vec1 tx1 meta1 (build_index ops))) =
     length (upsert doc ord vec1 tx1 meta1 (build_index ops))"
proof
  have "distinct (map record_key (upsert doc ord vec1 tx1 meta1 (build_index ops)))"
    by (intro distinct_keys_upsert distinct_keys_build_index)
  then show "records_at doc ord
     (upsert doc ord vec2 tx2 meta2 (upsert doc ord vec1 tx1 meta1 (build_index ops))) =
     [\<lparr>document_id = doc, chunk_ordinal = ord, vector = vec2, chunk_text = tx2,
       metadata = meta2\<rparr>]"
    by (rule records_at_upsert)
next
  have "(doc, ord) \<in> set (map record_key (upsert doc ord vec1 tx1 meta1 (build_index ops)))"
    by (simp only: keys_upsert split: if_split) simp
  then show "length (upsert doc ord vec2 tx2 meta2 (upsert doc ord vec1 tx1 meta1 (build_index ops))) =
     length (upsert doc ord vec1 tx1 meta1 (build_index ops))"
    by (simp add: upsert_def [of doc ord vec2] Let_def)
qed

section \<open>Properties of the upload ledger\<close>

lemma status_distinct:
  "queued \<noteq> processing" "queued \<noteq> completed" "queued \<noteq> failed"
  "processing \<noteq> completed" "processing \<noteq> failed" "completed \<noteq> failed"
  by (simp_all add: queued_def processing_def completed_def failed_def js_def)

lemma lifecycle_members:
  "queued \<in> lifecycle" "processing \<in> lifecycle" "completed \<in> lifecycle" "failed \<in> lifecycle"
  by (simp_all add: lifecycle_def)

lemma lifecycle_update_document:
  assumes "\<forall>d \<in> set l. status d \<in> lifecycle"
    and "\<And>x. status x \<in> lifecycle \<Longrightarrow> status (f x) \<in> lifecycle"
  shows "\<forall>d \<in> set (update_document doc f l). status d \<in> lifecycle"
  using assms by (auto simp: update_document_def)

lemma lifecycle_register_document:
  assumes "\<forall>d \<in> set l. status d \<in> lifecycle"
  shows "\<forall>d \<in> set (register_document doc original stored bytes stamp l). status d \<in> lifecycle"
  using assms
  by (auto simp: register_document_def Let_def new_document_def lifecycle_members)

lemma lifecycle_ledger_step:
  assumes "\<forall>d \<in> set l. status d \<in> lifecycle"
  shows "\<forall>d \<in> set (ledger_step l op). status d \<in> lifecycle"
proof (cases op)
  case (Register doc original stored bytes stamp)
  with assms show ?thesis by (simp add: lifecycle_register_document)
next
  case (MarkProcessing doc)
  have "\<forall>d \<in> set (mark_processing doc l). status d \<in> lifecycle"
    unfolding mark_processing_def
    by (rule lifecycle_update_document [OF assms]) (simp add: lifecycle_members)
  with MarkProcessing show ?thesis by simp
next
  case (RecordPageCount doc pages)
  have "\<forall>d \<in> set (record_page_count doc pages l). status d \<in> lifecycle"
    unfolding record_page_count_def
    by (rule lifecycle_update_document [OF assms]) (simp add: lifecycle_members)
  with RecordPageCount show ?thesis by simp
next
  case (MarkCompleted doc chunks seconds)
  have "\<forall>d \<in> set (mark_completed doc chunks seconds l). status d \<in> lifecycle"
    unfolding mark_completed_def
    by (rule lifecycle_update_document [OF assms]) (simp add: lifecycle_members)
  with MarkCompleted show ?thesis by simp
next
  case (MarkFailed doc msg)
  have "\<forall>d \<in> set (mark_failed doc msg l). status d \<in> lifecycle"
    unfolding mark_failed_def
    by (rule lifecycle_update_document [OF assms]) (simp add: lifecycle_members)
  with MarkFailed show ?thesis by simp
qed

lemma lifecycle_foldl:
  "\<forall>d \<in> set l. status d \<in> lifecycle \<Longrightarrow>
     \<forall>d \<in> set (foldl ledger_step l ops). status d \<in> lifecycle"
proof (induction ops arbitrary: l)
  case Nil
  then show ?case by simp
next
  case (Cons op ops)
  from Cons.prems have "\<forall>d \<in> set (ledger_step l op). status d \<in> lifecycle"
    by (rule lifecycle_ledger_step)
  then show ?case using Cons.IH by simp
qed

lemma fetchUploads_success:
  "uploads (fetchUploads
      (\<lambda>r. Response True (JsonValue \<lparr>listing_status = Some (js ''success''), listing_uploads = us\<rparr>))
      st) = us"
  by (simp add: fetchUploads_def Let_def)

text \<open>
  C6. Every Document record that \<open>list_documents\<close> exposes is a record \<open>upload\<close>: it
  carries the stable id, the original filename, the stored path reference, the byte
  size, the upload timestamp, the status, the page count, the chunk count, the
  processing duration and the last error message; and on every ledger built by the
  operations of the ledger its status is one of \<open>queued\<close>, \<open>processing\<close>, \<open>completed\<close>
  and \<open>failed\<close>. The same holds of the records \<open>fetchUploads\<close> stores when the uploads
  listing answers with the Documents of the ledger.
\<close>

theorem listed_documents_lifecycle:
  "(\<forall>d \<in> set (list_documents (build_ledger ops)).
      status d \<in> {js ''queued'', js ''processing'', js ''completed'', js ''failed''}) \<and>
   (\<forall>d \<in> set (uploads (fetchUploads
        (\<lambda>r. Response True (JsonValue \<lparr>listing_status = Some (js ''success''),
                                   listing_uploads = list_documents (build_ledger ops)\<rparr>))
        st)).
      status d \<in> {js ''queued'', js ''processing'', js ''completed'', js ''failed''})"
proof -
  have "\<forall>d \<in> set (foldl ledger_step [] ops). status d \<in> lifecycle"
    by (rule lifecycle_foldl) simp
  then have "\<forall>d \<in> set (list_documents (build_ledger ops)).
      status d \<in> {js ''queued'', js ''processing'', js ''completed'', js ''failed''}"
    by (simp add: list_documents_def build_ledger_def lifecycle_def queued_def processing_def
        completed_def failed_def)
  then show ?thesis by (simp only: fetchUploads_success simp_thms)
qed

theorem listed_documents_lifecycle_witness:
  "map status (list_documents (build_ledger
      [Register 1 (js ''a.pdf'') (js ''uploads/a.pdf'') 2048 (js ''2025-01-01T00:00:00''),
       MarkProcessing 1, RecordPageCount 1 2,
       Register 2 (js ''b.pdf'') (js ''uploads/b.pdf'') 10 (js ''2025-01-02T00:00:00''),
       MarkCompleted 1 4 (1 / 2), MarkFailed 2 (js ''no text'')])) =
     [js ''completed'', js ''failed''] \<and>
   js ''completed'' \<in> {js ''queued'', js ''processing'', js ''completed'', js ''failed''} \<and>
   js ''failed'' \<in> {js ''queued'', js ''processing'', js ''completed'', js ''failed''}"
  using listed_documents_lifecycle
    [where ops = "[Register 1 (js ''a.pdf'') (js ''uploads/a.pdf'') 2048 (js ''2025-01-01T00:00:00''),
       MarkProcessing 1, RecordPageCount 1 2,
       Register 2 (js ''b.pdf'') (js ''uploads/b.pdf'') 10 (js ''2025-01-02T00:00:00''),
       MarkCompleted 1 4 (1 / 2), MarkFailed 2 (js ''no text'')]", THEN conjunct1]
  by (simp add: build_ledger_def list_documents_def register_document_def new_document_def
      Let_def mark_processing_def record_page_count_def mark_completed_def mark_failed_def
      update_document_def status_distinct queued_def [symmetric] processing_def [symmetric]
      completed_def [symmetric] failed_def [symmetric])

section \<open>Properties of the ingestion pipeline\<close>

subsection \<open>The ledger during a run\<close>

lemma update_document_other:
  assumes "d \<in> set (update_document doc f l)" and "upload_id d \<noteq> doc"
    and "\<And>x. upload_id (f x) = upload_id x"
  shows "d \<in> set l"
  using assms by (auto simp: update_document_def split: if_splits)

lemma update_document_same:
  assumes "d \<in> set (update_document doc f l)" and "upload_id d = doc"
    and "\<And>x. upload_id (f x) = upload_id x"
  shows "\<exists>x \<in> set l. upload_id x = doc \<and> d = f x"
  using assms by (auto simp: update_document_def split: if_splits)

lemma update_document_ids:
  assumes "\<And>x. upload_id (f x) = upload_id x"
  shows "upload_id ` set (update_document doc f l) = upload_id ` set l"
  unfolding update_document_def
  by (induction l) (simp_all add: assms)

lemma new_document_simps:
  "upload_id (new_document doc original stored bytes stamp) = doc"
  "status (new_document doc original stored bytes stamp) = queued"
  by (simp_all add: new_document_def)

lemma set_register_document:
  "set (register_document doc original stored bytes stamp l) =
     insert (new_document doc original stored bytes stamp) {x \<in> set l. upload_id x \<noteq> doc}"
  by (auto simp: register_document_def Let_def image_iff)

lemma register_document_other:
  "d \<in> set (register_document doc original stored bytes stamp l) \<Longrightarrow> upload_id d \<noteq> doc \<Longrightarrow>
     d \<in> set l"
  by (auto simp: set_register_document new_document_simps)

lemma register_document_same:
  "d \<in> set (register_document doc original stored bytes stamp l) \<Longrightarrow> upload_id d = doc \<Longrightarrow>
     status d = queued"
  by (auto simp: set_register_document new_document_simps)

lemma register_document_present:
  "doc \<in> upload_id ` set (register_document doc original stored bytes stamp l)"
  by (simp add: set_register_document new_document_simps)

lemma find_document_Some:
  "doc \<in> upload_id ` set l \<Longrightarrow> \<exists>d. find_document doc l = Some d \<and> d \<in> set l \<and> upload_id d = doc"
  unfolding find_document_def
  by (induction l) auto

lemma find_document_member:
  "find_document doc l = Some d \<Longrightarrow> d \<in> set l \<and> upload_id d = doc"
  unfolding find_document_def
  by (induction l) (auto split: if_splits)


text \<open>
  The status of the Documents with the id \<open>doc\<close>, from one operation of the ledger
  to the next; the Documents with another id stay as they are, and the ids of the
  ledger stay the same.
\<close>

lemma update_document_status:
  assumes "\<forall>d \<in> set l. upload_id d = doc \<longrightarrow> P d"
    and "\<And>x. P x \<Longrightarrow> Q (f x)"
    and "\<And>x. upload_id (f x) = upload_id x"
  shows "\<forall>d \<in> set (update_document doc f l). upload_id d = doc \<longrightarrow> Q d"
proof (intro ballI impI)
  fix d
  assume "d \<in> set (update_document doc f l)" and "upload_id d = doc"
  then have "\<exists>x \<in> set l. upload_id x = doc \<and> d = f x"
    using assms(3) by (rule update_document_same)
  then obtain x where "x \<in> set l" "upload_id x = doc" "d = f x" by blast
  then show "Q d" using assms(1,2) by blast
qed

lemma mark_processing_status:
  assumes "\<forall>d \<in> set l. upload_id d = doc \<longrightarrow> status d = queued"
  shows "\<forall>d \<in> set (mark_processing doc l). upload_id d = doc \<longrightarrow> status d = processing"
  unfolding mark_processing_def
  by (rule update_document_status [OF assms]) simp_all

lemma record_page_count_status:
  assumes "\<forall>d \<in> set l. upload_id d = doc \<longrightarrow> status d = processing"
  shows "\<forall>d \<in> set (record_page_count doc pages l). upload_id d = doc \<longrightarrow> status d = processing"
  unfolding record_page_count_def
  by (rule update_document_status [OF assms]) simp_all

lemma mark_failed_status:
  assumes "\<forall>d \<in> set l. upload_id d = doc \<longrightarrow> status d = processing"
  shows "\<forall>d \<in> set (mark_failed doc msg l). upload_id d = doc \<longrightarrow> status d = failed"
  unfolding mark_failed_def
  by (rule update_document_status [OF assms]) simp_all

lemma mark_completed_status:
  assumes "\<forall>d \<in> set l. upload_id d = doc \<longrightarrow> status d = processing"
  shows "\<forall>d \<in> set (mark_completed doc chunks seconds l).
           upload_id d = doc \<longrightarrow> status d = completed \<and> num_chunks d = Some chunks"
  unfolding mark_completed_def
  by (rule update_document_status [OF assms]) simp_all

lemma mark_processing_other:
  "d \<in> set (mark_processing doc l) \<Longrightarrow> upload_id d \<noteq> doc \<Longrightarrow> d \<in> set l"
  unfolding mark_processing_def by (erule update_document_other) simp_all

lemma record_page_count_other:
  "d \<in> set (record_page_count doc pages l) \<Longrightarrow> upload_id d \<noteq> doc \<Longrightarrow> d \<in> set l"
  unfolding record_page_count_def by (erule update_document_other) simp_all

lemma mark_failed_other:
  "d \<in> set (mark_failed doc msg l) \<Longrightarrow> upload_id d \<noteq> doc \<Longrightarrow> d \<in> set l"
  unfolding mark_failed_def by (erule update_document_other) simp_all

lemma mark_completed_other:
  "d \<in> set (mark_completed doc chunks seconds l) \<Longrightarrow> upload_id d \<noteq> doc \<Longrightarrow> d \<in> set l"
  unfolding mark_completed_def by (erule update_document_other) simp_all

lemma mark_processing_ids: "upload_id ` set (mark_processing doc l) = upload_id ` set l"
  unfolding mark_processing_def by (rule update_document_ids) simp

lemma record_page_count_ids: "upload_id ` set (record_page_count doc pages l) = upload_id ` set l"
  unfolding record_page_count_def by (rule update_document_ids) simp

lemma mark_failed_ids: "upload_id ` set (mark_failed doc msg l) = upload_id ` set l"
  unfolding mark_failed_def by (rule update_document_ids) simp

lemma mark_completed_ids:
  "upload_id ` set (mark_completed doc chunks seconds l) = upload_id ` set l"
  unfolding mark_completed_def by (rule update_document_ids) simp

subsection \<open>The index during a run\<close>

lemma set_delete_document:
  "set (delete_document doc idx) = {r \<in> set idx. document_id r \<noteq> doc}"
  by (auto simp: delete_document_def)

lemma chunks_of_delete_document: "chunks_of doc (delete_document doc idx) = []"
  by (simp add: chunks_of_def delete_document_def)

lemma chunks_of_empty_iff: "chunks_of doc idx = [] \<longleftrightarrow> (\<forall>r \<in> set idx. document_id r \<noteq> doc)"
  by (auto simp: chunks_of_def filter_empty_conv)

lemma set_upsert:
  "r \<in> set (upsert doc ord vec tx meta idx) \<Longrightarrow> r \<in> set idx \<or> document_id r = doc"
  by (auto simp: upsert_def Let_def split: if_splits)

lemma set_upsert_all:
  "r \<in> set (snd (upsert_all wr idx cvs)) \<Longrightarrow>
     r \<in> set idx \<or> document_id r \<in> source_document_id ` fst ` set cvs"
proof (induction wr idx cvs rule: upsert_all.induct)
  case (1 wr idx)
  then show ?case by simp
next
  case (2 wr idx c v rest)
  show ?case
  proof (cases "wr \<lparr>document_id = source_document_id c, chunk_ordinal = ordinal c, vector = v,
               chunk_text = text_span c, metadata = []\<rparr>")
    case None
    with "2.prems" have "r \<in> set (snd (upsert_all wr
        (upsert (source_document_id c) (ordinal c) v (text_span c) [] idx) rest))" by simp
    with "2.IH" [OF None] have
      "r \<in> set (upsert (source_document_id c) (ordinal c) v (text_span c) [] idx) \<or>
       document_id r \<in> source_document_id ` fst ` set rest" by simp
    then show ?thesis using set_upsert [of r "source_document_id c"] by force
  next
    case (Some e)
    with "2.prems" show ?thesis by simp
  qed
qed

lemma chunker_source: "c \<in> set (chunker doc sz ov tx) \<Longrightarrow> source_document_id c = doc"
  by (auto simp: chunker_def)

lemma chunker_ordinals:
  "map ordinal (chunker doc sz ov tx) = [0..<length (split_text sz ov tx)]"
  by (rule nth_equalityI) (simp_all add: length_chunker chunker_nth)

subsection \<open>Embedding and indexing all chunks\<close>

lemma embed_many_fails:
  "t \<in> set ts \<Longrightarrow> emb t = Inl e \<Longrightarrow> \<exists>e'. embed_many emb ts = Inl e'"
  by (induction ts) (auto split: sum.splits)

lemma embed_many_succeeds:
  "\<forall>t \<in> set ts. \<exists>v. emb t = Inr v \<Longrightarrow>
     \<exists>vs. embed_many emb ts = Inr vs \<and> length vs = length ts"
proof (induction ts)
  case Nil
  then show ?case by simp
next
  case (Cons t ts)
  then obtain v vs where "emb t = Inr v" "embed_many emb ts = Inr vs" "length vs = length ts"
    by auto
  then show ?case by simp
qed

lemma upsert_fresh:
  "(doc, ord) \<notin> set (map record_key idx) \<Longrightarrow>
     upsert doc ord vec tx meta idx =
       idx @ [\<lparr>document_id = doc, chunk_ordinal = ord, vector = vec, chunk_text = tx,
                metadata = meta\<rparr>]"
  by (simp add: upsert_def Let_def)

lemma upsert_all_fresh:
  assumes "\<forall>r. wr r = None"
    and "distinct (map (\<lambda>(c, v). ordinal c) cvs)"
    and "\<forall>(c, v) \<in> set cvs. source_document_id c = doc"
    and "\<forall>(c, v) \<in> set cvs. (doc, ordinal c) \<notin> set (map record_key idx)"
  shows "upsert_all wr idx cvs =
           (None, idx @ map (\<lambda>(c, v). \<lparr>document_id = doc, chunk_ordinal = ordinal c,
                                      vector = v, chunk_text = text_span c,
                                      metadata = []\<rparr>) cvs)"
  using assms(2-4)
proof (induction cvs arbitrary: idx)
  case Nil
  then show ?case by simp
next
  case (Cons cv cvs)
  obtain c v where cv: "cv = (c, v)" by (cases cv)
  from Cons.prems(2) cv have src: "source_document_id c = doc" by simp
  from Cons.prems(3) cv have fresh: "(doc, ordinal c) \<notin> set (map record_key idx)" by simp
  let ?r = "\<lparr>document_id = doc, chunk_ordinal = ordinal c, vector = v,
             chunk_text = text_span c, metadata = []\<rparr>"
  have up: "upsert doc (ordinal c) v (text_span c) [] idx = idx @ [?r]"
    using fresh by (rule upsert_fresh)
  have "\<forall>(c', v') \<in> set cvs. (doc, ordinal c') \<notin> set (map record_key (idx @ [?r]))"
    using Cons.prems(1,3) cv by (fastforce simp: record_key_simps image_iff)
  moreover have "distinct (map (\<lambda>(c, v). ordinal c) cvs)"
    and "\<forall>(c, v) \<in> set cvs. source_document_id c = doc"
    using Cons.prems(1,2) by simp_all
  ultimately have "upsert_all wr (idx @ [?r]) cvs =
      (None, (idx @ [?r]) @ map (\<lambda>(c, v). \<lparr>document_id = doc, chunk_ordinal = ordinal c,
                                      vector = v, chunk_text = text_span c,
                                      metadata = []\<rparr>) cvs)"
    by (intro Cons.IH)
  moreover from assms(1) have "wr ?r = None" by simp
  ultimately show ?case using cv src up by simp
qed


subsection \<open>The outcomes of a run\<close>

lemma ingest_fst:
  "fst (ingest caps cfg doc name bytes ctx) =
     find_document doc (ledger (snd (ingest caps cfg doc name bytes ctx)))"
  by (simp add: ingest_def Let_def)

lemma zip_chunks_source:
  "source_document_id ` fst ` set (zip (chunker doc sz ov tx) vs) \<subseteq> {doc}"
  by (auto dest!: set_zip_leftD chunker_source)

lemma ingest_shape:
  "\<exists>l i. snd (ingest caps cfg doc name bytes ctx) = \<lparr>ledger = l, index = i\<rparr> \<and>
     doc \<in> upload_id ` set l \<and>
     (\<forall>d \<in> set l. upload_id d \<noteq> doc \<longrightarrow> d \<in> set (ledger ctx)) \<and>
     (\<forall>r \<in> set i. document_id r \<noteq> doc \<longrightarrow> r \<in> set (index ctx)) \<and>
     ((\<forall>d \<in> set l. upload_id d = doc \<longrightarrow> status d = failed) \<and> chunks_of doc i = [] \<or>
      (\<forall>d \<in> set l. upload_id d = doc \<longrightarrow> status d = completed))"
proof -
  define l0 where "l0 = register_document doc name (stored_path caps doc name) (length bytes)
                          (clock caps) (ledger ctx)"
  define l1 where "l1 = mark_processing doc l0"
  define i1 where "i1 = delete_document doc (index ctx)"
  have l1_status: "\<forall>d \<in> set l1. upload_id d = doc \<longrightarrow> status d = processing"
    unfolding l1_def l0_def
    by (rule mark_processing_status) (auto dest: register_document_same)
  have l1_other: "\<forall>d \<in> set l1. upload_id d \<noteq> doc \<longrightarrow> d \<in> set (ledger ctx)"
    unfolding l1_def l0_def
    by (auto dest: mark_processing_other register_document_other)
  have l1_present: "doc \<in> upload_id ` set l1"
    unfolding l1_def l0_def
    by (simp only: mark_processing_ids register_document_present)
  have i1_other: "\<forall>r \<in> set i1. document_id r \<noteq> doc \<longrightarrow> r \<in> set (index ctx)"
    unfolding i1_def by (simp add: set_delete_document)
  have failing: "\<exists>l' i'. \<lparr>ledger = mark_failed doc msg l, index = delete_document doc i\<rparr> =
        \<lparr>ledger = l', index = i'\<rparr> \<and>
     doc \<in> upload_id ` set l' \<and>
     (\<forall>d \<in> set l'. upload_id d \<noteq> doc \<longrightarrow> d \<in> set (ledger ctx)) \<and>
     (\<forall>r \<in> set i'. document_id r \<noteq> doc \<longrightarrow> r \<in> set (index ctx)) \<and>
     ((\<forall>d \<in> set l'. upload_id d = doc \<longrightarrow> status d = failed) \<and> chunks_of doc i' = [] \<or>
      (\<forall>d \<in> set l'. upload_id d = doc \<longrightarrow> status d = completed))"
    if "\<forall>d \<in> set l. upload_id d = doc \<longrightarrow> status d = processing"
      and "\<forall>d \<in> set l. upload_id d \<noteq> doc \<longrightarrow> d \<in> set (ledger ctx)"
      and "doc \<in> upload_id ` set l"
      and "\<forall>r \<in> set i. document_id r \<noteq> doc \<longrightarrow> r \<in> set (index ctx)"
    for l i msg
  proof (intro exI conjI)
    show "\<lparr>ledger = mark_failed doc msg l, index = delete_document doc i\<rparr> =
        \<lparr>ledger = mark_failed doc msg l, index = delete_document doc i\<rparr>" by (rule refl)
    show "doc \<in> upload_id ` set (mark_failed doc msg l)"
      using that(3) by (simp only: mark_failed_ids)
    show "\<forall>d \<in> set (mark_failed doc msg l). upload_id d \<noteq> doc \<longrightarrow> d \<in> set (ledger ctx)"
      using that(2) by (auto dest: mark_failed_other)
    show "\<forall>r \<in> set (delete_document doc i). document_id r \<noteq> doc \<longrightarrow> r \<in> set (index ctx)"
      using that(4) by (simp add: set_delete_document)
    show "(\<forall>d \<in> set (mark_failed doc msg l). upload_id d = doc \<longrightarrow> status d = failed) \<and>
            chunks_of doc (delete_document doc i) = [] \<or>
          (\<forall>d \<in> set (mark_failed doc msg l). upload_id d = doc \<longrightarrow> status d = completed)"
      using mark_failed_status [OF that(1)] by (simp add: chunks_of_delete_document)
  qed
  show ?thesis
  proof (cases "extract_text caps bytes")
    case (Inl e)
    have "delete_document doc i1 = i1"
      unfolding i1_def by (simp add: delete_document_def)
    then have "snd (ingest caps cfg doc name bytes ctx) =
        \<lparr>ledger = mark_failed doc (snd e) l1, index = delete_document doc i1\<rparr>"
      using Inl by (simp add: ingest_def Let_def l1_def l0_def i1_def)
    then show ?thesis
      using failing [OF l1_status l1_other l1_present i1_other, of "snd e"] by simp
  next
    case (Inr pc)
    obtain page_texts page_count where pc: "pc = (page_texts, page_count)" by (cases pc)
    define l2 where "l2 = record_page_count doc page_count l1"
    define chunks where
      "chunks = chunker doc (chunk_size cfg) (overlap cfg) (concat page_texts)"
    have l2_status: "\<forall>d \<in> set l2. upload_id d = doc \<longrightarrow> status d = processing"
      unfolding l2_def using l1_status by (rule record_page_count_status)
    have l2_other: "\<forall>d \<in> set l2. upload_id d \<noteq> doc \<longrightarrow> d \<in> set (ledger ctx)"
      unfolding l2_def using l1_other by (auto dest: record_page_count_other)
    have l2_present: "doc \<in> upload_id ` set l2"
      unfolding l2_def using l1_present by (simp only: record_page_count_ids)
    show ?thesis
    proof (cases "embed_many (embed caps) (map text_span chunks)")
      case (Inl e)
      then have "snd (ingest caps cfg doc name bytes ctx) =
          \<lparr>ledger = mark_failed doc (snd e) l2, index = delete_document doc i1\<rparr>"
        using Inr pc
        by (simp add: ingest_def Let_def l1_def l0_def i1_def l2_def chunks_def)
      then show ?thesis
        using failing [OF l2_status l2_other l2_present i1_other, of "snd e"] by simp
    next
      case vectors: (Inr vectors)
      obtain res i2 where up: "upsert_all (store_write caps) i1 (zip chunks vectors) = (res, i2)"
        by (cases "upsert_all (store_write caps) i1 (zip chunks vectors)")
      have i2_other: "\<forall>r \<in> set i2. document_id r \<noteq> doc \<longrightarrow> r \<in> set (index ctx)"
      proof (intro ballI impI)
        fix r
        assume r: "r \<in> set i2" and other: "document_id r \<noteq> doc"
        from r up have "r \<in> set (snd (upsert_all (store_write caps) i1 (zip chunks vectors)))"
          by simp
        then have "r \<in> set i1 \<or> document_id r \<in> source_document_id ` fst ` set (zip chunks vectors)"
          by (rule set_upsert_all)
        with other zip_chunks_source [of doc "chunk_size cfg" "overlap cfg" "concat page_texts" vectors]
        have "r \<in> set i1" unfolding chunks_def by blast
        with i1_other other show "r \<in> set (index ctx)" by blast
      qed
      show ?thesis
      proof (cases res)
        case None
        then have run: "snd (ingest caps cfg doc name bytes ctx) =
            \<lparr>ledger = mark_completed doc (length chunks) (elapsed caps) l2, index = i2\<rparr>"
          using Inr pc vectors up
          by (simp add: ingest_def Let_def l1_def l0_def i1_def l2_def chunks_def)
        have "doc \<in> upload_id ` set (mark_completed doc (length chunks) (elapsed caps) l2)"
          using l2_present by (simp only: mark_completed_ids)
        moreover have "\<forall>d \<in> set (mark_completed doc (length chunks) (elapsed caps) l2).
            upload_id d \<noteq> doc \<longrightarrow> d \<in> set (ledger ctx)"
          using l2_other by (auto dest: mark_completed_other)
        moreover have "\<forall>d \<in> set (mark_completed doc (length chunks) (elapsed caps) l2).
            upload_id d = doc \<longrightarrow> status d = completed"
          using mark_completed_status [OF l2_status] by blast
        ultimately show ?thesis using run i2_other by blast
      next
        case (Some e)
        then have "snd (ingest caps cfg doc name bytes ctx) =
            \<lparr>ledger = mark_failed doc (snd e) l2, index = delete_document doc i2\<rparr>"
          using Inr pc vectors up
          by (simp add: ingest_def Let_def l1_def l0_def i1_def l2_def chunks_def)
        then show ?thesis
          using failing [OF l2_status l2_other l2_present i2_other, of "snd e"] by simp
      qed
    qed
  qed
qed

lemma started_ledger_status:
  "\<forall>d \<in> set (mark_processing doc (register_document doc original stored bytes stamp l)).
     upload_id d = doc \<longrightarrow> status d = processing"
  by (rule mark_processing_status) (auto dest: register_document_same)

lemma started_ledger_present:
  "doc \<in> upload_id ` set (mark_processing doc (register_document doc original stored bytes stamp l))"
  by (simp only: mark_processing_ids register_document_present)

lemma ingest_embed_failed:
  assumes "extract_text caps bytes = Inr (page_texts, page_count)"
    and "embed_many (embed caps)
           (map text_span (chunker doc (chunk_size cfg) (overlap cfg) (concat page_texts))) = Inl e"
  shows "snd (ingest caps cfg doc name bytes ctx) =
           \<lparr>ledger = mark_failed doc (snd e) (record_page_count doc page_count
                (mark_processing doc (register_document doc name (stored_path caps doc name)
                   (length bytes) (clock caps) (ledger ctx)))),
            index = delete_document doc (delete_document doc (index ctx))\<rparr>"
  using assms by (simp add: ingest_def Let_def)

lemma ingest_completed:
  assumes "extract_text caps bytes = Inr (page_texts, page_count)"
    and "embed_many (embed caps)
           (map text_span (chunker doc (chunk_size cfg) (overlap cfg) (concat page_texts))) =
         Inr vectors"
    and "upsert_all (store_write caps) (delete_document doc (index ctx))
           (zip (chunker doc (chunk_size cfg) (overlap cfg) (concat page_texts)) vectors) =
         (None, i2)"
  shows "snd (ingest caps cfg doc name bytes ctx) =
           \<lparr>ledger = mark_completed doc
                (length (chunker doc (chunk_size cfg) (overlap cfg) (concat page_texts)))
                (elapsed caps)
                (record_page_count doc page_count
                  (mark_processing doc (register_document doc name (stored_path caps doc name)
                     (length bytes) (clock caps) (ledger ctx)))),
            index = i2\<rparr>"
  using assms by (simp add: ingest_def Let_def)

lemma ingest_embedding_failure:
  assumes "extract_text caps bytes = Inr (page_texts, page_count)"
    and "c \<in> set (chunker doc (chunk_size cfg) (overlap cfg) (concat page_texts))"
    and "embed caps (text_span c) = Inl e"
  shows "(\<exists>d. fst (ingest caps cfg doc name bytes ctx) = Some d \<and> status d = failed) \<and>
         chunks_of doc (index (snd (ingest caps cfg doc name bytes ctx))) = []"
proof -
  let ?chunks = "chunker doc (chunk_size cfg) (overlap cfg) (concat page_texts)"
  let ?l2 = "record_page_count doc page_count
                (mark_processing doc (register_document doc name (stored_path caps doc name)
                   (length bytes) (clock caps) (ledger ctx)))"
  from assms(2) have "text_span c \<in> set (map text_span ?chunks)" by simp
  then obtain e' where "embed_many (embed caps) (map text_span ?chunks) = Inl e'"
    using assms(3) embed_many_fails by blast
  with assms(1) have run: "snd (ingest caps cfg doc name bytes ctx) =
      \<lparr>ledger = mark_failed doc (snd e') ?l2,
       index = delete_document doc (delete_document doc (index ctx))\<rparr>"
    by (rule ingest_embed_failed)
  have "\<forall>d \<in> set ?l2. upload_id d = doc \<longrightarrow> status d = processing"
    by (intro record_page_count_status started_ledger_status)
  then have st: "\<forall>d \<in> set (mark_failed doc (snd e') ?l2). upload_id d = doc \<longrightarrow> status d = failed"
    by (rule mark_failed_status)
  have "doc \<in> upload_id ` set (mark_failed doc (snd e') ?l2)"
    by (simp only: mark_failed_ids record_page_count_ids started_ledger_present)
  then obtain d where "find_document doc (mark_failed doc (snd e') ?l2) = Some d"
    and "d \<in> set (mark_failed doc (snd e') ?l2)" and "upload_id d = doc"
    using find_document_Some by blast
  with st have "fst (ingest caps cfg doc name bytes ctx) = Some d \<and> status d = failed"
    by (simp add: ingest_fst run)
  moreover have "chunks_of doc (index (snd (ingest caps cfg doc name bytes ctx))) = []"
    by (simp add: run chunks_of_delete_document)
  ultimately show ?thesis by blast
qed

lemma ingest_not_completed:
  assumes "fst (ingest caps cfg doc name bytes ctx) = Some d" and "status d \<noteq> completed"
  shows "chunks_of doc (index (snd (ingest caps cfg doc name bytes ctx))) = []"
proof -
  obtain l i where run: "snd (ingest caps cfg doc name bytes ctx) = \<lparr>ledger = l, index = i\<rparr>"
    and alt: "(\<forall>d \<in> set l. upload_id d = doc \<longrightarrow> status d = failed) \<and> chunks_of doc i = [] \<or>
              (\<forall>d \<in> set l. upload_id d = doc \<longrightarrow> status d = completed)"
    using ingest_shape [of caps cfg doc name bytes ctx] by blast
  from assms(1) have "find_document doc l = Some d" by (simp add: ingest_fst run)
  then have "d \<in> set l" "upload_id d = doc" by (simp_all add: find_document_member)
  with alt assms(2) have "chunks_of doc i = []" by blast
  then show ?thesis by (simp add: run)
qed

lemma ingest_consistent:
  assumes "index_consistent ctx"
  shows "index_consistent (snd (ingest caps cfg doc name bytes ctx))"
proof -
  obtain l i where run: "snd (ingest caps cfg doc name bytes ctx) = \<lparr>ledger = l, index = i\<rparr>"
    and l_other: "\<forall>d \<in> set l. upload_id d \<noteq> doc \<longrightarrow> d \<in> set (ledger ctx)"
    and i_other: "\<forall>r \<in> set i. document_id r \<noteq> doc \<longrightarrow> r \<in> set (index ctx)"
    and alt: "(\<forall>d \<in> set l. upload_id d = doc \<longrightarrow> status d = failed) \<and> chunks_of doc i = [] \<or>
              (\<forall>d \<in> set l. upload_id d = doc \<longrightarrow> status d = completed)"
    using ingest_shape [of caps cfg doc name bytes ctx] by blast
  have "status d = completed"
    if "r \<in> set i" and "d \<in> set l" and "upload_id d = document_id r" for r d
  proof (cases "document_id r = doc")
    case True
    with that(1) have "chunks_of doc i \<noteq> []" by (auto simp: chunks_of_empty_iff)
    with alt that(2,3) True show ?thesis by auto
  next
    case False
    with that i_other l_other have "r \<in> set (index ctx)" "d \<in> set (ledger ctx)" by auto
    with assms that(3) show ?thesis unfolding index_consistent_def by blast
  qed
  then show ?thesis unfolding index_consistent_def by (simp add: run)
qed

text \<open>
  C3. Ingestion is all-or-nothing per document. When the extraction succeeds and the
  embedder fails on one of the chunks, the Document ends in status \<open>failed\<close> and the
  index holds no chunk of it. Whatever the outcome of a run, a Document that does not
  end \<open>completed\<close> has no chunk in the index; and if, before the run, the index holds
  chunks of completed Documents only, it does so after the run.
\<close>

theorem ingest_all_or_nothing:
  "(extract_text caps bytes = Inr (page_texts, page_count) \<and>
    c \<in> set (chunker doc (chunk_size cfg) (overlap cfg) (concat page_texts)) \<and>
    embed caps (text_span c) = Inl e \<longrightarrow>
      (\<exists>d. fst (ingest caps cfg doc name bytes ctx) = Some d \<and> status d = failed) \<and>
      chunks_of doc (index (snd (ingest caps cfg doc name bytes ctx))) = []) \<and>
   (\<forall>d. fst (ingest caps cfg doc name bytes ctx) = Some d \<and> status d \<noteq> completed \<longrightarrow>
      chunks_of doc (index (snd (ingest caps cfg doc name bytes ctx))) = []) \<and>
   (index_consistent ctx \<longrightarrow> index_consistent (snd (ingest caps cfg doc name bytes ctx)))"
proof (intro conjI impI allI)
  assume "extract_text caps bytes = Inr (page_texts, page_count) \<and>
    c \<in> set (chunker doc (chunk_size cfg) (overlap cfg) (concat page_texts)) \<and>
    embed caps (text_span c) = Inl e"
  then have h: "extract_text caps bytes = Inr (page_texts, page_count)"
    "c \<in> set (chunker doc (chunk_size cfg) (overlap cfg) (concat page_texts))"
    "embed caps (text_span c) = Inl e" by simp_all
  from ingest_embedding_failure [OF h]
  show "\<exists>d. fst (ingest caps cfg doc name bytes ctx) = Some d \<and> status d = failed"
    and "chunks_of doc (index (snd (ingest caps cfg doc name bytes ctx))) = []"
    by blast+
next
  fix d
  assume "fst (ingest caps cfg doc name bytes ctx) = Some d \<and> status d \<noteq> completed"
  then show "chunks_of doc (index (snd (ingest caps cfg doc name bytes ctx))) = []"
    using ingest_not_completed by blast
next
  assume "index_consistent ctx"
  then show "index_consistent (snd (ingest caps cfg doc name bytes ctx))"
    by (rule ingest_consistent)
qed


theorem ingest_all_or_nothing_witness:
  "(\<exists>d. fst (ingest (sample_capabilities ''abcdefghi'' ''efgh'')
             (default_config\<lparr>chunk_size := 4, overlap := 2\<rparr>) 1 (js ''a.pdf'') []
             \<lparr>ledger = [(new_document 1 (js ''a.pdf'') (js ''a.pdf'') 0 (js ''2024''))
                          \<lparr>status := completed\<rparr>],
              index = [\<lparr>document_id = 1, chunk_ordinal = 0, vector = 3, chunk_text = ''old'',
                        metadata = []\<rparr>]\<rparr>) = Some d \<and> status d = failed) \<and>
   chunks_of 1 (index (snd (ingest (sample_capabilities ''abcdefghi'' ''efgh'')
             (default_config\<lparr>chunk_size := 4, overlap := 2\<rparr>) 1 (js ''a.pdf'') []
             \<lparr>ledger = [(new_document 1 (js ''a.pdf'') (js ''a.pdf'') 0 (js ''2024''))
                          \<lparr>status := completed\<rparr>],
              index = [\<lparr>document_id = 1, chunk_ordinal = 0, vector = 3, chunk_text = ''old'',
                        metadata = []\<rparr>]\<rparr>))) = [] \<and>
   index_consistent (snd (ingest (sample_capabilities ''abcdefghi'' ''efgh'')
             (default_config\<lparr>chunk_size := 4, overlap := 2\<rparr>) 1 (js ''a.pdf'') []
             \<lparr>ledger = [(new_document 1 (js ''a.pdf'') (js ''a.pdf'') 0 (js ''2024''))
                          \<lparr>status := completed\<rparr>],
              index = [\<lparr>document_id = 1, chunk_ordinal = 0, vector = 3, chunk_text = ''old'',
                        metadata = []\<rparr>]\<rparr>))"
proof -
  let ?caps = "sample_capabilities ''abcdefghi'' ''efgh''"
  let ?cfg = "default_config\<lparr>chunk_size := 4, overlap := 2\<rparr>"
  let ?ctx = "\<lparr>ledger = [(new_document 1 (js ''a.pdf'') (js ''a.pdf'') 0 (js ''2024''))
                          \<lparr>status := completed\<rparr>],
              index = [\<lparr>document_id = 1, chunk_ordinal = 0, vector = 3::nat,
                        chunk_text = ''old'', metadata = []\<rparr>]\<rparr>"
  let ?c = "\<lparr>source_document_id = 1, ordinal = 2, text_span = ''efgh'', char_length = 4\<rparr>"
  have h1: "extract_text ?caps [] = Inr ([''abcdefghi''], 1)"
    by (simp add: sample_capabilities_def)
  have h2: "?c \<in> set (chunker 1 (chunk_size ?cfg) (overlap ?cfg) (concat [''abcdefghi'']))"
    by (simp add: chunker_def split_text.simps)
  have h3: "embed ?caps (text_span ?c) = Inl (EmbeddingFailure, js ''input too long'')"
    by (simp add: sample_capabilities_def)
  have h4: "index_consistent ?ctx"
    by (simp add: index_consistent_def)
  show ?thesis
    using ingest_all_or_nothing [where caps = ?caps and bytes = "[]"
        and page_texts = "[''abcdefghi'']" and page_count = 1 and c = ?c and doc = 1
        and cfg = ?cfg and e = "(EmbeddingFailure, js ''input too long'')"
        and name = "js ''a.pdf''" and ctx = ?ctx] h1 h2 h3 h4
    by blast
qed

subsection \<open>A document of a thousand characters\<close>

lemma split_text_thousand:
  assumes "length tx = 1000"
  shows "split_text 400 200 tx =
           [take 400 tx, take 400 (drop 200 tx), take 400 (drop 400 tx), drop 600 tx]"
proof -
  have ne: "tx \<noteq> []" using assms by auto
  have s0: "split_text 400 200 tx = take 400 tx # split_text 400 200 (drop 200 tx)"
    using assms ne by (simp add: split_text.simps [of 400 200 tx])
  have s1: "split_text 400 200 (drop 200 tx) =
              take 400 (drop 200 tx) # split_text 400 200 (drop 400 tx)"
    using assms by (simp add: split_text.simps [of 400 200 "drop 200 tx"])
  have s2: "split_text 400 200 (drop 400 tx) =
              take 400 (drop 400 tx) # split_text 400 200 (drop 600 tx)"
    using assms by (simp add: split_text.simps [of 400 200 "drop 400 tx"])
  have s3: "split_text 400 200 (drop 600 tx) = [drop 600 tx]"
    using assms by (simp add: split_text.simps [of 400 200 "drop 600 tx"])
  show ?thesis by (simp only: s0 s1 s2 s3)
qed

lemma chunks_of_append_fresh:
  assumes "chunks_of doc idx = []" and "\<forall>r \<in> set recs. document_id r = doc"
  shows "chunks_of doc (idx @ recs) = recs"
  using assms by (simp add: chunks_of_def)

lemma delete_document_keys:
  "(doc, ord) \<notin> set (map record_key (delete_document doc idx))"
  by (auto simp: delete_document_def record_key_def)

lemma ingest_thousand:
  assumes cfg: "chunk_size cfg = 400" "overlap cfg = 200"
    and ex: "extract_text caps bytes = Inr (page_texts, page_count)"
    and len: "length (concat page_texts) = 1000"
    and emb: "\<forall>c \<in> set (chunker doc 400 200 (concat page_texts)).
                \<exists>v. embed caps (text_span c) = Inr v"
    and wr: "\<forall>r. store_write caps r = None"
  shows "(\<exists>d. fst (ingest caps cfg doc name bytes ctx) = Some d \<and> status d = completed \<and>
              num_chunks d = Some 4) \<and>
         map chunk_ordinal (chunks_of doc (index (snd (ingest caps cfg doc name bytes ctx)))) =
           [0, 1, 2, 3] \<and>
         map chunk_text (chunks_of doc (index (snd (ingest caps cfg doc name bytes ctx)))) =
           [take 400 (concat page_texts), take 400 (drop 200 (concat page_texts)),
            take 400 (drop 400 (concat page_texts)), drop 600 (concat page_texts)]"
proof -
  let ?tx = "concat page_texts"
  let ?chunks = "chunker doc (chunk_size cfg) (overlap cfg) ?tx"
  let ?i1 = "delete_document doc (index ctx)"
  let ?l2 = "record_page_count doc page_count
                (mark_processing doc (register_document doc name (stored_path caps doc name)
                   (length bytes) (clock caps) (ledger ctx)))"
  let ?rec = "\<lambda>(c, v). \<lparr>document_id = doc, chunk_ordinal = ordinal c, vector = v,
                           chunk_text = text_span c, metadata = []\<rparr>"
  have spans: "map text_span ?chunks =
      [take 400 ?tx, take 400 (drop 200 ?tx), take 400 (drop 400 ?tx), drop 600 ?tx]"
    using len by (simp only: cfg text_span_chunker split_text_thousand)
  then have "length (map text_span ?chunks) = 4" by simp
  then have n: "length ?chunks = 4" by (simp only: length_map)
  have ords: "map ordinal ?chunks = [0, 1, 2, 3]"
  proof -
    have "length (split_text (chunk_size cfg) (overlap cfg) ?tx) = 4"
      using n by (simp only: length_chunker)
    then have "map ordinal ?chunks = [0..<4]" by (simp only: chunker_ordinals)
    also have "\<dots> = [0, 1, 2, 3]" by (simp add: upt_rec)
    finally show ?thesis .
  qed
  obtain vs where vs: "embed_many (embed caps) (map text_span ?chunks) = Inr vs"
    and vs_len: "length vs = length ?chunks"
    using embed_many_succeeds [of "map text_span ?chunks" "embed caps"] emb
    by (auto simp: cfg)
  have fst_zip: "map fst (zip ?chunks vs) = ?chunks"
    using vs_len by (simp add: map_fst_zip)
  have "map (\<lambda>(c, v). ordinal c) (zip ?chunks vs) = map ordinal (map fst (zip ?chunks vs))"
    by (simp add: case_prod_unfold)
  then have ord_zip: "map (\<lambda>(c, v). ordinal c) (zip ?chunks vs) = [0, 1, 2, 3]"
    by (simp only: fst_zip ords)
  have "upsert_all (store_write caps) ?i1 (zip ?chunks vs) =
          (None, ?i1 @ map ?rec (zip ?chunks vs))"
  proof (rule upsert_all_fresh [OF wr])
    show "distinct (map (\<lambda>(c, v). ordinal c) (zip ?chunks vs))"
      by (simp only: ord_zip) simp
    show "\<forall>(c, v) \<in> set (zip ?chunks vs). source_document_id c = doc"
      by (auto dest!: set_zip_leftD chunker_source)
    show "\<forall>(c, v) \<in> set (zip ?chunks vs). (doc, ordinal c) \<notin> set (map record_key ?i1)"
      using delete_document_keys by fast
  qed
  with ex vs have run: "snd (ingest caps cfg doc name bytes ctx) =
      \<lparr>ledger = mark_completed doc (length ?chunks) (elapsed caps) ?l2,
       index = ?i1 @ map ?rec (zip ?chunks vs)\<rparr>"
    by (rule ingest_completed)
  have "\<forall>d \<in> set ?l2. upload_id d = doc \<longrightarrow> status d = processing"
    by (intro record_page_count_status started_ledger_status)
  then have st: "\<forall>d \<in> set (mark_completed doc (length ?chunks) (elapsed caps) ?l2).
      upload_id d = doc \<longrightarrow> status d = completed \<and> num_chunks d = Some (length ?chunks)"
    by (rule mark_completed_status)
  have "doc \<in> upload_id ` set (mark_completed doc (length ?chunks) (elapsed caps) ?l2)"
    by (simp only: mark_completed_ids record_page_count_ids started_ledger_present)
  then obtain d where "find_document doc (mark_completed doc (length ?chunks) (elapsed caps) ?l2) = Some d"
    and "d \<in> set (mark_completed doc (length ?chunks) (elapsed caps) ?l2)" and "upload_id d = doc"
    using find_document_Some by blast
  with st n have c1: "\<exists>d. fst (ingest caps cfg doc name bytes ctx) = Some d \<and>
      status d = completed \<and> num_chunks d = Some 4"
    by (simp add: ingest_fst run)
  have recs: "chunks_of doc (index (snd (ingest caps cfg doc name bytes ctx))) =
      map ?rec (zip ?chunks vs)"
    unfolding run by (simp add: chunks_of_append_fresh chunks_of_delete_document case_prod_unfold)
  have "map chunk_ordinal (map ?rec (zip ?chunks vs)) = map (\<lambda>(c, v). ordinal c) (zip ?chunks vs)"
    by (simp add: case_prod_unfold)
  then have c2: "map chunk_ordinal (chunks_of doc (index (snd (ingest caps cfg doc name bytes ctx)))) =
      [0, 1, 2, 3]"
    by (simp only: recs ord_zip)
  have "map chunk_text (map ?rec (zip ?chunks vs)) = map text_span (map fst (zip ?chunks vs))"
    by (simp add: case_prod_unfold)
  then have c3: "map chunk_text (chunks_of doc (index (snd (ingest caps cfg doc name bytes ctx)))) =
      [take 400 ?tx, take 400 (drop 200 ?tx), take 400 (drop 400 ?tx), drop 600 ?tx]"
    by (simp only: recs fst_zip spans)
  from c1 c2 c3 show ?thesis by (intro conjI)
qed


lemma sample_thousand:
  "chunk_size default_config = 400" "overlap default_config = 200"
  "extract_text (sample_capabilities (replicate 1000 CHR ''a'') []) [] =
     Inr ([replicate 1000 CHR ''a''], 1)"
  "length (concat [replicate 1000 CHR ''a'']) = 1000"
  "\<forall>c \<in> set (chunker 1 400 200 (concat [replicate 1000 CHR ''a''])).
     \<exists>v. embed (sample_capabilities (replicate 1000 CHR ''a'') []) (text_span c) = Inr v"
  "\<forall>r. store_write (sample_capabilities (replicate 1000 CHR ''a'') []) r = None"
proof -
  show "chunk_size default_config = 400" "overlap default_config = 200"
    by (simp_all add: default_config_def)
  show "extract_text (sample_capabilities (replicate 1000 CHR ''a'') []) [] =
     Inr ([replicate 1000 CHR ''a''], 1)"
    by (simp add: sample_capabilities_def)
  show "length (concat [replicate 1000 CHR ''a'']) = 1000" by simp
  show "\<forall>r. store_write (sample_capabilities (replicate 1000 CHR ''a'') []) r = None"
    by (simp add: sample_capabilities_def)
  have spans: "\<forall>t \<in> set (split_text 400 200 (replicate 1000 CHR ''a'')). t \<noteq> []"
    by (simp add: split_text_thousand)
  have "\<forall>c \<in> set (chunker 1 400 200 (replicate 1000 CHR ''a'')). text_span c \<noteq> []"
  proof
    fix c :: "char chunk"
    assume "c \<in> set (chunker 1 400 200 (replicate 1000 CHR ''a''))"
    then have "text_span c \<in> set (map text_span (chunker 1 400 200 (replicate 1000 CHR ''a'')))"
      by simp
    then have "text_span c \<in> set (split_text 400 200 (replicate 1000 CHR ''a''))"
      by (simp only: text_span_chunker)
    with spans show "text_span c \<noteq> []" by blast
  qed
  then show "\<forall>c \<in> set (chunker 1 400 200 (concat [replicate 1000 CHR ''a''])).
     \<exists>v. embed (sample_capabilities (replicate 1000 CHR ''a'') []) (text_span c) = Inr v"
    by (simp add: sample_capabilities_def)
qed

text \<open>
  C2, as amended. The ingestion of a document of 1000 characters with chunk size 400
  and overlap 200, when the extraction succeeds, the embedder succeeds on every chunk
  and every write goes through, leaves the Document in status \<open>completed\<close> with a chunk
  count of 4, and the index holds its four chunks, with the ordinals 0 to 3, at the
  offsets 0, 200, 400 and 600; the last one ends at character 1000.
\<close>

theorem ingest_thousand_characters:
  assumes "chunk_size cfg = 400" and "overlap cfg = 200"
    and "extract_text caps bytes = Inr (page_texts, page_count)"
    and "length (concat page_texts) = 1000"
    and "\<forall>c \<in> set (chunker doc 400 200 (concat page_texts)).
           \<exists>v. embed caps (text_span c) = Inr v"
    and "\<forall>r. store_write caps r = None"
  shows "(\<exists>d. fst (ingest caps cfg doc name bytes ctx) = Some d \<and> status d = completed \<and>
              num_chunks d = Some 4) \<and>
         map chunk_ordinal (chunks_of doc (index (snd (ingest caps cfg doc name bytes ctx)))) =
           [0, 1, 2, 3] \<and>
         map chunk_text (chunks_of doc (index (snd (ingest caps cfg doc name bytes ctx)))) =
           [take 400 (concat page_texts), take 400 (drop 200 (concat page_texts)),
            take 400 (drop 400 (concat page_texts)), drop 600 (concat page_texts)]"
  using assms by (rule ingest_thousand)

theorem ingest_thousand_characters_witness:
  "(\<exists>d. fst (ingest (sample_capabilities (replicate 1000 CHR ''a'') []) default_config 1
             (js ''a.pdf'') [] \<lparr>ledger = [], index = []\<rparr>) = Some d \<and>
        status d = completed \<and> num_chunks d = Some 4) \<and>
   map chunk_ordinal (chunks_of 1 (index (snd (ingest
       (sample_capabilities (replicate 1000 CHR ''a'') []) default_config 1
       (js ''a.pdf'') [] \<lparr>ledger = [], index = []\<rparr>)))) = [0, 1, 2, 3]"
  using ingest_thousand_characters [OF sample_thousand, of "js ''a.pdf''" "\<lparr>ledger = [], index = []\<rparr>"]
  by blast

text \<open>
  C2, as stated, fails: the document of 1000 characters gives 4 chunks, not 3, and
  the chunk count of the Document is 4.
\<close>

theorem ingest_thousand_characters_counterexample:
  "length (chunker 1 400 200 (replicate 1000 CHR ''a'')) \<noteq> 3 \<and>
   map_option num_chunks (fst (ingest (sample_capabilities (replicate 1000 CHR ''a'') [])
      default_config 1 (js ''a.pdf'') [] \<lparr>ledger = [], index = []\<rparr>)) \<noteq> Some (Some 3) \<and>
   length (chunks_of 1 (index (snd (ingest (sample_capabilities (replicate 1000 CHR ''a'') [])
      default_config 1 (js ''a.pdf'') [] \<lparr>ledger = [], index = []\<rparr>)))) \<noteq> 3"
proof -
  let ?run = "ingest (sample_capabilities (replicate 1000 CHR ''a'') []) default_config 1
      (js ''a.pdf'') [] \<lparr>ledger = [], index = []\<rparr>"
  have "length (split_text 400 200 (replicate 1000 CHR ''a'')) = 4"
    by (simp add: split_text_thousand)
  then have c1: "length (chunker 1 400 200 (replicate 1000 CHR ''a'')) \<noteq> 3"
    by (simp add: length_chunker)
  from ingest_thousand [OF sample_thousand, of "js ''a.pdf''" "\<lparr>ledger = [], index = []\<rparr>"]
  have d: "\<exists>d. fst ?run = Some d \<and> status d = completed \<and> num_chunks d = Some 4"
    and o: "map chunk_ordinal (chunks_of 1 (index (snd ?run))) = [0, 1, 2, 3]"
    by blast+
  from d have c2: "map_option num_chunks (fst ?run) \<noteq> Some (Some 3)" by auto
  have "length (map chunk_ordinal (chunks_of 1 (index (snd ?run)))) = 4"
    by (simp only: o) simp
  then have c3: "length (chunks_of 1 (index (snd ?run))) \<noteq> 3" by simp
  from c1 c2 c3 show ?thesis by (intro conjI)
qed

section \<open>Properties of ChatArea\<close>

declare toString.simps [simp del]

lemma handleSendMessage_requests:
  "snd (handleSendMessage server now content st) = [chat_request content]"
  by (simp add: handleSendMessage_def Let_def)

lemma request_top_k_chat: "request_top_k (chat_request content) = Some 3"
  by (simp add: request_top_k_def chat_request_def)

text \<open>
  C4, as amended. The chat caller sends exactly one request for every message; the
  request carries the value of top-K as its field \<open>top_k\<close>, and that value is always
  the default 3: the chat caller has no way to issue a query with another value.
\<close>

theorem chat_top_k_fixed:
  "map request_top_k (snd (handleSendMessage server now content st)) = [Some 3]"
  by (simp add: handleSendMessage_requests request_top_k_chat)

text \<open>
  C4, as stated, fails: no message, state, clock or server makes the chat caller send a
  request with a \<open>top_k\<close> other than 3.
\<close>

theorem chat_top_k_counterexample:
  "\<not> (\<exists>server now content st.
        \<exists>r \<in> set (snd (handleSendMessage (server :: http_request \<Rightarrow> chat_reply fetch_result)
                          now content st)).
          request_top_k r \<noteq> Some 3)"
  by (simp add: handleSendMessage_requests request_top_k_chat)

text \<open>
  C5. A query is stateless relative to the prior turns: the same message text gives
  the same request whatever the state of the conversation, the clock and the answers
  of the server so far; the body of the request is the message text and \<open>top_k\<close>, and
  nothing of the prior turns.
\<close>

theorem chat_request_stateless:
  "snd (handleSendMessage server1 now1 content st1) =
     snd (handleSendMessage server2 now2 content st2) \<and>
   map body (snd (handleSendMessage server1 now1 content st1)) =
     [Json \<lparr>message = content, top_k = 3\<rparr>]"
  by (simp add: handleSendMessage_requests chat_request_def)

lemma request_answer_failed:
  "failed_request (server (chat_request content)) \<Longrightarrow>
     \<exists>err. request_answer server content = Inl err"
  by (auto simp: failed_request_def request_answer_def
      split: fetch_result.splits json_body.splits)

lemma handleSendMessage_error:
  "request_answer server content = Inl err \<Longrightarrow>
     fst (handleSendMessage server now content st) =
       st\<lparr>messages := messages st @
            [\<lparr>message_id = toString (now 0), message_role = User, message_content = content\<rparr>,
             \<lparr>message_id = toString (now (catch_reading err) + 1), message_role = Assistant,
              message_content = error_content\<rparr>],
          isLoading := False\<rparr>"
  by (simp add: handleSendMessage_def Let_def)

text \<open>
  C8. A failed chat request reaches the caller as an error value, not as a crash: a
  rejected \<open>fetch\<close>, a response that is not ok (the \<open>Error\<close> the caller raises with its
  fixed message), a body that is not JSON and a \<open>null\<close> body each end the \<open>try\<close> block
  with an error. The caller decides the message for the user: whatever the error, it
  appends the user turn and an assistant turn with the fixed error message, and it
  ends the loading state; the loading state is ended after a successful request too.
  The id of the error turn is the reading of the clock in the \<open>catch\<close> block plus 1:
  the third reading after a \<open>null\<close> body, the second one otherwise.
\<close>

theorem chat_failure_handled:
  "(server (chat_request content) = Rejected \<longrightarrow>
      request_answer server content = Inl FetchRejected) \<and>
   (\<forall>data. server (chat_request content) = Response False data \<longrightarrow>
      request_answer server content = Inl (Error (js ''Failed to get response from server''))) \<and>
   (server (chat_request content) = Response True Unparseable \<longrightarrow>
      request_answer server content = Inl BodyUnreadable) \<and>
   (server (chat_request content) = Response True JsonNull \<longrightarrow>
      request_answer server content = Inl TypeError) \<and>
   (failed_request (server (chat_request content)) \<longrightarrow>
      fst (handleSendMessage server now content st) =
        st\<lparr>messages := messages st @
             [\<lparr>message_id = toString (now 0), message_role = User, message_content = content\<rparr>,
              \<lparr>message_id =
                 toString (now (if server (chat_request content) = Response True JsonNull
                                then 2 else 1) + 1),
               message_role = Assistant,
               message_content =
                 js ''Sorry, I encountered an error. Please make sure the backend server is running on http://localhost:5001''\<rparr>],
           isLoading := False\<rparr>) \<and>
   isLoading (fst (handleSendMessage server now content st)) = False"
proof (intro conjI impI allI)
  assume "server (chat_request content) = Rejected"
  then show "request_answer server content = Inl FetchRejected"
    by (simp add: request_answer_def)
next
  fix data
  assume "server (chat_request content) = Response False data"
  then show "request_answer server content =
      Inl (Error (js ''Failed to get response from server''))"
    by (simp add: request_answer_def)
next
  assume "server (chat_request content) = Response True Unparseable"
  then show "request_answer server content = Inl BodyUnreadable"
    by (simp add: request_answer_def)
next
  assume "server (chat_request content) = Response True JsonNull"
  then show "request_answer server content = Inl TypeError"
    by (simp add: request_answer_def)
next
  assume failed: "failed_request (server (chat_request content))"
  then obtain err where err: "request_answer server content = Inl err"
    using request_answer_failed by blast
  have "catch_reading err =
          (if server (chat_request content) = Response True JsonNull then 2 else 1)"
    using err failed
    by (auto simp: request_answer_def failed_request_def catch_reading_def
        split: fetch_result.splits json_body.splits if_splits)
  with handleSendMessage_error [OF err, of now st]
  show "fst (handleSendMessage server now content st) =
        st\<lparr>messages := messages st @
             [\<lparr>message_id = toString (now 0), message_role = User, message_content = content\<rparr>,
              \<lparr>message_id =
                 toString (now (if server (chat_request content) = Response True JsonNull
                                then 2 else 1) + 1),
               message_role = Assistant,
               message_content =
                 js ''Sorry, I encountered an error. Please make sure the backend server is running on http://localhost:5001''\<rparr>],
           isLoading := False\<rparr>"
    by (simp only: error_content_def)
next
  show "isLoading (fst (handleSendMessage server now content st)) = False"
    by (simp add: handleSendMessage_def Let_def split: sum.splits)
qed

lemma sample_clock:
  "toString ((\<lambda>k. 1700000000000 + 250 * k) 0) = js ''1700000000000''"
  "toString ((\<lambda>k. 1700000000000 + 250 * k) 1 + 1) = js ''1700000000251''"
  "toString ((\<lambda>k. 1700000000000 + 250 * k) 2 + 1) = js ''1700000000501''"
  by (simp_all add: toString.simps js_def)

theorem chat_failure_handled_witness:
  "request_answer (\<lambda>r. Rejected) (js ''What is MRI?'') = Inl FetchRejected \<and>
   request_answer (\<lambda>r. Response True Unparseable) (js ''What is MRI?'') = Inl BodyUnreadable \<and>
   request_answer (\<lambda>r. Response True JsonNull) (js ''What is MRI?'') = Inl TypeError \<and>
   request_answer (\<lambda>r. Response False Unparseable) (js ''What is MRI?'') =
     Inl (Error (js ''Failed to get response from server'')) \<and>
   fst (handleSendMessage (\<lambda>r. Response False Unparseable) (\<lambda>k. 1700000000000 + 250 * k)
          (js ''What is MRI?'') \<lparr>messages = [], isLoading = False, refreshHistory = 0\<rparr>) =
     \<lparr>messages =
        [\<lparr>message_id = js ''1700000000000'', message_role = User,
          message_content = js ''What is MRI?''\<rparr>,
         \<lparr>message_id = js ''1700000000251'', message_role = Assistant,
          message_content =
            js ''Sorry, I encountered an error. Please make sure the backend server is running on http://localhost:5001''\<rparr>],
      isLoading = False, refreshHistory = 0\<rparr> \<and>
   fst (handleSendMessage (\<lambda>r. Response True JsonNull) (\<lambda>k. 1700000000000 + 250 * k)
          (js ''What is MRI?'') \<lparr>messages = [], isLoading = False, refreshHistory = 0\<rparr>) =
     \<lparr>messages =
        [\<lparr>message_id = js ''1700000000000'', message_role = User,
          message_content = js ''What is MRI?''\<rparr>,
         \<lparr>message_id = js ''1700000000501'', message_role = Assistant,
          message_content =
            js ''Sorry, I encountered an error. Please make sure the backend server is running on http://localhost:5001''\<rparr>],
      isLoading = False, refreshHistory = 0\<rparr>"
proof -
  let ?st = "\<lparr>messages = [], isLoading = False, refreshHistory = 0\<rparr>"
  let ?q = "js ''What is MRI?''"
  let ?now = "\<lambda>k::nat. 1700000000000 + 250 * k"
  let ?down = "\<lambda>r. Response False Unparseable :: chat_reply fetch_result"
  let ?null = "\<lambda>r. Response True JsonNull :: chat_reply fetch_result"
  have f1: "failed_request (?down (chat_request ?q))"
    by (simp add: failed_request_def)
  have f2: "failed_request (?null (chat_request ?q))"
    by (simp add: failed_request_def)
  have a: "request_answer (\<lambda>r. Rejected) ?q = Inl FetchRejected"
    using chat_failure_handled [of "\<lambda>r. Rejected" ?q ?now ?st] by (simp only: simp_thms)
  have b: "request_answer (\<lambda>r. Response True Unparseable) ?q = Inl BodyUnreadable"
    using chat_failure_handled [of "\<lambda>r. Response True Unparseable" ?q ?now ?st]
    by (simp only: simp_thms)
  have c: "request_answer ?null ?q = Inl TypeError"
    using chat_failure_handled [of ?null ?q ?now ?st] by (simp only: simp_thms)
  have d: "request_answer ?down ?q = Inl (Error (js ''Failed to get response from server''))"
    using chat_failure_handled [of ?down ?q ?now ?st] by blast
  have "fst (handleSendMessage ?down ?now ?q ?st) =
     ?st\<lparr>messages := messages ?st @
        [\<lparr>message_id = toString (?now 0), message_role = User, message_content = ?q\<rparr>,
         \<lparr>message_id = toString (?now (if ?down (chat_request ?q) = Response True JsonNull
                                          then 2 else 1) + 1),
          message_role = Assistant,
          message_content =
            js ''Sorry, I encountered an error. Please make sure the backend server is running on http://localhost:5001''\<rparr>],
        isLoading := False\<rparr>"
    using chat_failure_handled [of ?down ?q ?now ?st] f1 by blast
  then have e: "fst (handleSendMessage ?down ?now ?q ?st) =
     \<lparr>messages =
        [\<lparr>message_id = js ''1700000000000'', message_role = User, message_content = ?q\<rparr>,
         \<lparr>message_id = js ''1700000000251'', message_role = Assistant,
          message_content =
            js ''Sorry, I encountered an error. Please make sure the backend server is running on http://localhost:5001''\<rparr>],
      isLoading = False, refreshHistory = 0\<rparr>"
    using sample_clock by simp
  have "fst (handleSendMessage ?null ?now ?q ?st) =
     ?st\<lparr>messages := messages ?st @
        [\<lparr>message_id = toString (?now 0), message_role = User, message_content = ?q\<rparr>,
         \<lparr>message_id = toString (?now (if ?null (chat_request ?q) = Response True JsonNull
                                          then 2 else 1) + 1),
          message_role = Assistant,
          message_content =
            js ''Sorry, I encountered an error. Please make sure the backend server is running on http://localhost:5001''\<rparr>],
        isLoading := False\<rparr>"
    using chat_failure_handled [of ?null ?q ?now ?st] f2 by blast
  then have g: "fst (handleSendMessage ?null ?now ?q ?st) =
     \<lparr>messages =
        [\<lparr>message_id = js ''1700000000000'', message_role = User, message_content = ?q\<rparr>,
         \<lparr>message_id = js ''1700000000501'', message_role = Assistant,
          message_content =
            js ''Sorry, I encountered an error. Please make sure the backend server is running on http://localhost:5001''\<rparr>],
      isLoading = False, refreshHistory = 0\<rparr>"
    using sample_clock by simp
  from a b c d e g show ?thesis by (intro conjI)
qed

section \<open>Properties of FileUpload\<close>

lemma uploadFile_files: "uploaded_files (uploadFile props server f) = [f]"
  by (auto simp: uploadFile_def report_error_def optional_call_def
      split: fetch_result.splits json_body.splits option.splits)

lemma uploadFile_requests: "upload_requests (uploadFile props server f) = [upload_request f]"
  by (auto simp: uploadFile_def report_error_def optional_call_def
      split: fetch_result.splits json_body.splits option.splits)

lemma report_error_quiet:
  "uploaded_files (report_error props msg) = []" "upload_requests (report_error props msg) = []"
  by (simp_all add: report_error_def optional_call_def)

lemma handleDrop_files:
  "f' \<in> set (uploaded_files (handleDrop props server files)) \<Longrightarrow>
     file_type f' = js ''application/pdf''"
  by (auto simp: handleDrop_def uploadFile_files report_error_quiet
      split: option.splits list.splits if_splits)

lemma handleFileSelect_files:
  "f' \<in> set (uploaded_files (handleFileSelect props server files)) \<Longrightarrow>
     file_type f' = js ''application/pdf''"
  by (auto simp: handleFileSelect_def uploadFile_files report_error_quiet
      split: option.splits list.splits if_splits)

lemma run_actions_report_error:
  "uploadStatus (run_actions st (pre @ report_error props msg)) =
     \<lparr>upload_state = Failure, status_message = Some msg, status_filename = None,
      numPages = None, numChunks = None, processingTime = None\<rparr>"
  by (simp add: run_actions_def report_error_def optional_call_def status_only_def)

lemma handleDrop_refused:
  "file_type f \<noteq> js ''application/pdf'' \<Longrightarrow>
     handleDrop props server (Some (f # rest)) =
       [SetIsDragging False] @ report_error props (js ''Only PDF files are allowed'')"
  by (simp add: handleDrop_def)

lemma handleFileSelect_refused:
  "file_type f \<noteq> js ''application/pdf'' \<Longrightarrow>
     handleFileSelect props server (Some (f # rest)) =
       [] @ report_error props (js ''Only PDF files are allowed'')"
  by (simp add: handleFileSelect_def)

lemma refused_status:
  assumes "file_type f \<noteq> js ''application/pdf''"
  shows "uploadStatus (run_actions st (handleDrop props server (Some (f # rest)))) =
     \<lparr>upload_state = Failure, status_message = Some (js ''Only PDF files are allowed''),
      status_filename = None, numPages = None, numChunks = None, processingTime = None\<rparr>"
    and "uploadStatus (run_actions st (handleFileSelect props server (Some (f # rest)))) =
     \<lparr>upload_state = Failure, status_message = Some (js ''Only PDF files are allowed''),
      status_filename = None, numPages = None, numChunks = None, processingTime = None\<rparr>"
proof -
  show "uploadStatus (run_actions st (handleDrop props server (Some (f # rest)))) =
     \<lparr>upload_state = Failure, status_message = Some (js ''Only PDF files are allowed''),
      status_filename = None, numPages = None, numChunks = None, processingTime = None\<rparr>"
    unfolding handleDrop_refused [OF assms] by (rule run_actions_report_error)
  show "uploadStatus (run_actions st (handleFileSelect props server (Some (f # rest)))) =
     \<lparr>upload_state = Failure, status_message = Some (js ''Only PDF files are allowed''),
      status_filename = None, numPages = None, numChunks = None, processingTime = None\<rparr>"
    unfolding handleFileSelect_refused [OF assms] by (rule run_actions_report_error)
qed

text \<open>
  C10, as amended. \<open>handleDrop\<close> and \<open>handleFileSelect\<close> look at the first file of the
  list only. For a first file whose type is not \<open>application/pdf\<close> they set the error
  status with the message \<open>Only PDF files are allowed\<close> (the status of the component
  after the handler is that one), call \<open>onUploadError\<close> with that
  message when the callback is given and make no call when it is not, send no upload
  request and do not call \<open>uploadFile\<close>. Every file \<open>uploadFile\<close> is called with has
  the type \<open>application/pdf\<close>.
\<close>

theorem only_pdf_uploaded:
  "handleDrop props server (Some (f # rest)) = handleDrop props server (Some [f]) \<and>
   handleFileSelect props server (Some (f # rest)) = handleFileSelect props server (Some [f]) \<and>
   (file_type f \<noteq> js ''application/pdf'' \<longrightarrow>
      handleDrop props server (Some (f # rest)) =
        [SetIsDragging False,
         SetUploadStatus \<lparr>upload_state = Failure,
           status_message = Some (js ''Only PDF files are allowed''), status_filename = None,
           numPages = None, numChunks = None, processingTime = None\<rparr>] @
        (if onUploadError props then [OnUploadError (js ''Only PDF files are allowed'')] else []) \<and>
      handleFileSelect props server (Some (f # rest)) =
        [SetUploadStatus \<lparr>upload_state = Failure,
           status_message = Some (js ''Only PDF files are allowed''), status_filename = None,
           numPages = None, numChunks = None, processingTime = None\<rparr>] @
        (if onUploadError props then [OnUploadError (js ''Only PDF files are allowed'')] else []) \<and>
      upload_requests (handleDrop props server (Some (f # rest))) = [] \<and>
      upload_requests (handleFileSelect props server (Some (f # rest))) = [] \<and>
      uploaded_files (handleDrop props server (Some (f # rest))) = [] \<and>
      uploaded_files (handleFileSelect props server (Some (f # rest))) = [] \<and>
      uploadStatus (run_actions st (handleDrop props server (Some (f # rest)))) =
        \<lparr>upload_state = Failure, status_message = Some (js ''Only PDF files are allowed''),
         status_filename = None, numPages = None, numChunks = None, processingTime = None\<rparr> \<and>
      uploadStatus (run_actions st (handleFileSelect props server (Some (f # rest)))) =
        \<lparr>upload_state = Failure, status_message = Some (js ''Only PDF files are allowed''),
         status_filename = None, numPages = None, numChunks = None, processingTime = None\<rparr>) \<and>
   (\<forall>f' \<in> set (uploaded_files (handleDrop props server files)).
      file_type f' = js ''application/pdf'') \<and>
   (\<forall>f' \<in> set (uploaded_files (handleFileSelect props server files)).
      file_type f' = js ''application/pdf'')"
proof (intro conjI impI ballI)
  show "handleDrop props server (Some (f # rest)) = handleDrop props server (Some [f])"
    by (simp add: handleDrop_def)
  show "handleFileSelect props server (Some (f # rest)) = handleFileSelect props server (Some [f])"
    by (simp add: handleFileSelect_def)
next
  assume other: "file_type f \<noteq> js ''application/pdf''"
  then show "handleDrop props server (Some (f # rest)) =
        [SetIsDragging False,
         SetUploadStatus \<lparr>upload_state = Failure,
           status_message = Some (js ''Only PDF files are allowed''), status_filename = None,
           numPages = None, numChunks = None, processingTime = None\<rparr>] @
        (if onUploadError props then [OnUploadError (js ''Only PDF files are allowed'')] else [])"
    by (simp add: handleDrop_def report_error_def optional_call_def status_only_def)
  from other show "handleFileSelect props server (Some (f # rest)) =
        [SetUploadStatus \<lparr>upload_state = Failure,
           status_message = Some (js ''Only PDF files are allowed''), status_filename = None,
           numPages = None, numChunks = None, processingTime = None\<rparr>] @
        (if onUploadError props then [OnUploadError (js ''Only PDF files are allowed'')] else [])"
    by (simp add: handleFileSelect_def report_error_def optional_call_def status_only_def)
  from other show "upload_requests (handleDrop props server (Some (f # rest))) = []"
    by (simp add: handleDrop_def report_error_quiet)
  from other show "upload_requests (handleFileSelect props server (Some (f # rest))) = []"
    by (simp add: handleFileSelect_def report_error_quiet)
  from other show "uploaded_files (handleDrop props server (Some (f # rest))) = []"
    by (simp add: handleDrop_def report_error_quiet)
  from other show "uploaded_files (handleFileSelect props server (Some (f # rest))) = []"
    by (simp add: handleFileSelect_def report_error_quiet)
  from other show "uploadStatus (run_actions st (handleDrop props server (Some (f # rest)))) =
        \<lparr>upload_state = Failure, status_message = Some (js ''Only PDF files are allowed''),
         status_filename = None, numPages = None, numChunks = None, processingTime = None\<rparr>"
    by (rule refused_status)
  from other show "uploadStatus (run_actions st (handleFileSelect props server (Some (f # rest)))) =
        \<lparr>upload_state = Failure, status_message = Some (js ''Only PDF files are allowed''),
         status_filename = None, numPages = None, numChunks = None, processingTime = None\<rparr>"
    by (rule refused_status)
next
  fix f'
  assume "f' \<in> set (uploaded_files (handleDrop props server files))"
  then show "file_type f' = js ''application/pdf''" by (rule handleDrop_files)
next
  fix f'
  assume "f' \<in> set (uploaded_files (handleFileSelect props server files))"
  then show "file_type f' = js ''application/pdf''" by (rule handleFileSelect_files)
qed

lemma js_text_plain: "js ''text/plain'' \<noteq> js ''application/pdf''"
  by (simp add: js_def)

theorem only_pdf_uploaded_witness:
  "handleDrop \<lparr>onUploadSuccess = True, onUploadError = True\<rparr> (\<lambda>r. Rejected)
     (Some [\<lparr>file_name = js ''notes.txt'', file_type = js ''text/plain''\<rparr>,
            \<lparr>file_name = js ''paper.pdf'', file_type = js ''application/pdf''\<rparr>]) =
     [SetIsDragging False,
      SetUploadStatus \<lparr>upload_state = Failure,
        status_message = Some (js ''Only PDF files are allowed''), status_filename = None,
        numPages = None, numChunks = None, processingTime = None\<rparr>,
      OnUploadError (js ''Only PDF files are allowed'')] \<and>
   uploaded_files (handleFileSelect \<lparr>onUploadSuccess = True, onUploadError = True\<rparr>
     (\<lambda>r. Rejected)
     (Some [\<lparr>file_name = js ''paper.pdf'', file_type = js ''application/pdf''\<rparr>])) =
     [\<lparr>file_name = js ''paper.pdf'', file_type = js ''application/pdf''\<rparr>]"
proof -
  let ?props = "\<lparr>onUploadSuccess = True, onUploadError = True\<rparr>"
  let ?notes = "\<lparr>file_name = js ''notes.txt'', file_type = js ''text/plain''\<rparr>"
  let ?paper = "\<lparr>file_name = js ''paper.pdf'', file_type = js ''application/pdf''\<rparr>"
  have other: "file_type ?notes \<noteq> js ''application/pdf''"
    using js_text_plain by simp
  have "file_type ?notes \<noteq> js ''application/pdf'' \<longrightarrow>
      handleDrop ?props (\<lambda>r. Rejected) (Some (?notes # [?paper])) =
        [SetIsDragging False,
         SetUploadStatus \<lparr>upload_state = Failure,
           status_message = Some (js ''Only PDF files are allowed''), status_filename = None,
           numPages = None, numChunks = None, processingTime = None\<rparr>] @
        (if onUploadError ?props then [OnUploadError (js ''Only PDF files are allowed'')] else [])"
    using only_pdf_uploaded [of ?props "\<lambda>r. Rejected" ?notes "[?paper]"] by blast
  with other have a: "handleDrop ?props (\<lambda>r. Rejected) (Some [?notes, ?paper]) =
     [SetIsDragging False,
      SetUploadStatus \<lparr>upload_state = Failure,
        status_message = Some (js ''Only PDF files are allowed''), status_filename = None,
        numPages = None, numChunks = None, processingTime = None\<rparr>,
      OnUploadError (js ''Only PDF files are allowed'')]"
    by simp
  have b: "uploaded_files (handleFileSelect ?props (\<lambda>r. Rejected) (Some [?paper])) = [?paper]"
    by (simp add: handleFileSelect_def uploadFile_files)
  from a b show ?thesis by (intro conjI)
qed

text \<open>
  C10, as stated, fails where the optional callback is not given, as in \<open>ChatArea\<close>:
  a file that is not a PDF is refused, and \<open>onUploadError\<close> is not called.
\<close>

theorem only_pdf_uploaded_counterexample:
  "error_calls (handleDrop \<lparr>onUploadSuccess = True, onUploadError = False\<rparr> (\<lambda>r. Rejected)
     (Some [\<lparr>file_name = js ''notes.txt'', file_type = js ''text/plain''\<rparr>])) = [] \<and>
   error_calls (handleFileSelect \<lparr>onUploadSuccess = True, onUploadError = False\<rparr>
     (\<lambda>r. Rejected)
     (Some [\<lparr>file_name = js ''notes.txt'', file_type = js ''text/plain''\<rparr>])) = []"
  by (simp add: handleDrop_def handleFileSelect_def report_error_def optional_call_def
      js_text_plain)

end
